theory Spec2Isabelle
  imports Complex_Main "HOL-Library.Log_Nat"
begin

section \<open>Python values and exceptions\<close>

text \<open>
  The exceptions that the modelled functions of \<^verbatim>\<open>main.py\<close> can raise.
  \<open>HTTPError\<close> is what \<^verbatim>\<open>raise_for_status()\<close> raises for a non-success status,
  \<open>OverflowError\<close> comes from the conversions between \<^verbatim>\<open>int\<close> and \<^verbatim>\<open>float\<close>,
  \<open>UnboundLocalError\<close> from reading a local variable that no assignment has reached.
\<close>

datatype error = HTTPError nat | OverflowError | UnboundLocalError | ZeroDivisionError

subsection \<open>Floats\<close>

text \<open>
  A Python \<^verbatim>\<open>float\<close> is an IEEE 754 binary64 number. A finite one is modelled by
  the rational it denotes. \<open>binary64\<close> rounds an exact rational to the nearest double
  (ties to the even significand): the 53-bit significand is the quotient by \<open>2 powi e\<close>,
  where \<open>e\<close> is the exponent of the last significand bit, never below that of the
  subnormal numbers. The exponent is not bounded above here; \<open>to_float\<close> turns a result
  beyond the largest double into an infinity.
\<close>

definition round_half_even :: "rat \<Rightarrow> int" where
  "round_half_even y =
     (let f = \<lfloor>y\<rfloor>; d = y - of_int f
      in if d < 1 / 2 then f else if 1 / 2 < d then f + 1 else if even f then f else f + 1)"

definition ilog2 :: "rat \<Rightarrow> int" where
  "ilog2 x =
     (let (p, q) = quotient_of x; d = bitlen p - bitlen q
      in if 2 powi d \<le> x then d else d - 1)"

definition binary64 :: "rat \<Rightarrow> rat" where
  "binary64 x =
     (if x = 0 then 0
      else let e = max (ilog2 \<bar>x\<bar> - 52) (- 1074)
           in sgn x * of_int (round_half_even (\<bar>x\<bar> / 2 powi e)) * 2 powi e)"

datatype pyfloat = Finite rat | Infinite

definition to_float :: "rat \<Rightarrow> pyfloat" where
  "to_float x = (let r = binary64 x in if 2 ^ 1024 \<le> \<bar>r\<bar> then Infinite else Finite r)"

text \<open>The conversion of an \<^verbatim>\<open>int\<close> operand to \<^verbatim>\<open>float\<close>; it raises when the integer is too large.\<close>

definition float_of_int :: "int \<Rightarrow> error + rat" where
  "float_of_int n =
     (case to_float (of_int n) of Infinite \<Rightarrow> Inl OverflowError | Finite r \<Rightarrow> Inr r)"

text \<open>\<^verbatim>\<open>int(x)\<close> of a float truncates toward zero and raises on an infinity.\<close>

definition trunc :: "rat \<Rightarrow> int" where
  "trunc r = (if 0 \<le> r then \<lfloor>r\<rfloor> else - \<lfloor>- r\<rfloor>)"

definition int_of_float :: "pyfloat \<Rightarrow> error + int" where
  "int_of_float x =
     (case x of Infinite \<Rightarrow> Inl OverflowError | Finite r \<Rightarrow> Inr (trunc r))"

text \<open>\<^verbatim>\<open>n * c\<close> for an \<^verbatim>\<open>int\<close> \<open>n\<close> and a \<^verbatim>\<open>float\<close> \<open>c\<close>: the integer is converted, the
  product is rounded, and a product out of range is an infinity (no exception).\<close>

definition int_mul_float :: "int \<Rightarrow> rat \<Rightarrow> error + pyfloat" where
  "int_mul_float n c =
     (case float_of_int n of Inl e \<Rightarrow> Inl e | Inr x \<Rightarrow> Inr (to_float (x * c)))"

text \<open>\<^verbatim>\<open>a / b\<close> for two \<^verbatim>\<open>int\<close>s: the correctly rounded quotient, or an exception.\<close>

definition true_div :: "int \<Rightarrow> int \<Rightarrow> error + pyfloat" where
  "true_div a b =
     (if b = 0 then Inl ZeroDivisionError
      else case to_float (of_int a / of_int b) of
             Infinite \<Rightarrow> Inl OverflowError
           | Finite r \<Rightarrow> Inr (Finite r))"

text \<open>The float literals \<^verbatim>\<open>1.2\<close> and \<^verbatim>\<open>0.8\<close>: the doubles nearest to 12/10 and 8/10.\<close>

definition float_1_2 :: rat where "float_1_2 = binary64 (12 / 10)"

definition float_0_8 :: rat where "float_0_8 = binary64 (8 / 10)"

text \<open>\<^verbatim>\<open>int(...)\<close> applied to a float expression that may itself have raised.\<close>

definition py_int :: "error + pyfloat \<Rightarrow> error + int" where
  "py_int r = (case r of Inl e \<Rightarrow> Inl e | Inr x \<Rightarrow> int_of_float x)"

text \<open>\<^verbatim>\<open>return v\<close> in a function whose result may also be \<^verbatim>\<open>None\<close>.\<close>

definition returning :: "error + int \<Rightarrow> error + int option" where
  "returning r = map_sum id Some r"

text \<open>Truthiness of a value of type \<^verbatim>\<open>Union[None, int]\<close>.\<close>

fun truthy :: "int option \<Rightarrow> bool" where
  "truthy None = False"
| "truthy (Some n) = (n \<noteq> 0)"

section \<open>Salary predictor\<close>

definition predict_salary :: "int option \<Rightarrow> int option \<Rightarrow> error + int option" where
  "predict_salary salary_from salary_to =
     (if truthy salary_from \<and> truthy salary_to
        then returning (py_int (true_div (the salary_from + the salary_to) 2))
      else if truthy salary_from
        then returning (py_int (int_mul_float (the salary_from) float_1_2))
      else if truthy salary_to
        then returning (py_int (int_mul_float (the salary_to) float_0_8))
      else Inr None)"

text \<open>
  A vacancy of hh.ru: \<^verbatim>\<open>vacancy['salary']\<close> is null or a dictionary with the keys
  \<^verbatim>\<open>'currency'\<close>, \<^verbatim>\<open>'from'\<close> and \<^verbatim>\<open>'to'\<close>. A vacancy of superjob.ru carries
  \<^verbatim>\<open>'currency'\<close>, \<^verbatim>\<open>'payment_from'\<close> and \<^verbatim>\<open>'payment_to'\<close> itself.
\<close>

record hh_salary =
  hh_currency :: string
  hh_from :: "int option"
  hh_to :: "int option"

record hh_vacancy =
  salary :: "hh_salary option"

record sj_vacancy =
  currency :: string
  payment_from :: "int option"
  payment_to :: "int option"

definition predict_rub_salary_hh :: "hh_vacancy \<Rightarrow> error + int option" where
  "predict_rub_salary_hh vacancy =
     (case salary vacancy of
        None \<Rightarrow> Inr None
      | Some s \<Rightarrow>
          if hh_currency s = ''RUR'' then predict_salary (hh_from s) (hh_to s) else Inr None)"

definition predict_rub_salary_sj :: "sj_vacancy \<Rightarrow> error + int option" where
  "predict_rub_salary_sj vacancy =
     (if currency vacancy = ''rub''
        then predict_salary (payment_from vacancy) (payment_to vacancy)
      else Inr None)"

section \<open>Paginated fetchers\<close>

text \<open>
  The HTTP transport is a parameter: a function from the page index of the request to
  the response. \<open>Failed status\<close> is a response on which \<^verbatim>\<open>raise_for_status()\<close> raises,
  \<open>Page content\<close> one whose JSON body is \<open>content\<close>. Each page index is requested at
  most once, so a function of the index covers every deterministic transport.
  An element of a page is \<open>None\<close> for a null or empty vacancy (falsy in Python).
\<close>

datatype 'p response = Failed nat | Page 'p

record hh_page =
  items :: "hh_vacancy option list"
  found :: int
  pages :: int

record sj_page =
  objects :: "sj_vacancy option list"
  total :: int
  sj_more :: bool

text \<open>
  What a run of a generator to its end does, in order: it requests a page from the
  transport or yields a pair to its consumer. A run is the trace of these events and
  the exception that ended it, if any. \<open>yielded\<close> is the sequence of pairs that the
  consumer receives, \<open>requested\<close> the sequence of page indices that the transport
  receives.
\<close>

datatype 'v event = Request nat | Yield "'v \<times> int"

record 'v fetched =
  trace :: "'v event list"
  raised :: "error option"

fun yields :: "'v event list \<Rightarrow> ('v \<times> int) list" where
  "yields [] = []"
| "yields (Request p # es) = yields es"
| "yields (Yield pair # es) = pair # yields es"

fun requests :: "'v event list \<Rightarrow> nat list" where
  "requests [] = []"
| "requests (Request p # es) = p # requests es"
| "requests (Yield pair # es) = requests es"

definition yielded :: "'v fetched \<Rightarrow> ('v \<times> int) list" where
  "yielded r = yields (trace r)"

definition requested :: "'v fetched \<Rightarrow> nat list" where
  "requested r = requests (trace r)"

text \<open>
  The loop \<^verbatim>\<open>for page in count()\<close> of \<^verbatim>\<open>fetch_hh_vacancies\<close>, entered at \<open>page\<close> with
  \<^verbatim>\<open>page_content['pages']\<close> equal to \<open>pages_seen\<close>. The loop has no bound of its own,
  so the result is optional: \<open>None\<close> stands for a loop that never ends.
\<close>

partial_function (option) fetch_hh_loop ::
  "(nat \<Rightarrow> hh_page response) \<Rightarrow> nat \<Rightarrow> int \<Rightarrow> hh_vacancy option fetched option" where
  "fetch_hh_loop get page pages_seen =
     (if int page > pages_seen \<or> page = 200
        then Some \<lparr>trace = [], raised = None\<rparr>
      else case get page of
             Failed status \<Rightarrow>
               Some \<lparr>trace = [Request page], raised = Some (HTTPError status)\<rparr>
           | Page page_content \<Rightarrow>
               Option.bind (fetch_hh_loop get (Suc page) (pages page_content))
                 (\<lambda>rest. Some \<lparr>trace = Request page #
                                          map (\<lambda>vacancy. Yield (vacancy, found page_content))
                                            (items page_content) @ trace rest,
                                raised = raised rest\<rparr>))"

declare fetch_hh_loop.simps [code]

definition fetch_hh_vacancies ::
  "(nat \<Rightarrow> hh_page response) \<Rightarrow> hh_vacancy option fetched option" where
  "fetch_hh_vacancies get = fetch_hh_loop get 0 0"

text \<open>The same loop of \<^verbatim>\<open>fetch_sj_vacancies\<close>, with \<^verbatim>\<open>page_content['more']\<close> as \<open>more_seen\<close>
  (the field \<open>sj_more\<close> of a page; \<open>more\<close> is not available as a field name);
  the seed \<^verbatim>\<open>{'more': 'True'}\<close> is truthy.\<close>

partial_function (option) fetch_sj_loop ::
  "(nat \<Rightarrow> sj_page response) \<Rightarrow> nat \<Rightarrow> bool \<Rightarrow> sj_vacancy option fetched option" where
  "fetch_sj_loop get page more_seen =
     (if \<not> more_seen \<or> page = 50
        then Some \<lparr>trace = [], raised = None\<rparr>
      else case get page of
             Failed status \<Rightarrow>
               Some \<lparr>trace = [Request page], raised = Some (HTTPError status)\<rparr>
           | Page page_content \<Rightarrow>
               Option.bind (fetch_sj_loop get (Suc page) (sj_more page_content))
                 (\<lambda>rest. Some \<lparr>trace = Request page #
                                          map (\<lambda>vacancy. Yield (vacancy, total page_content))
                                            (objects page_content) @ trace rest,
                                raised = raised rest\<rparr>))"

declare fetch_sj_loop.simps [code]

definition fetch_sj_vacancies ::
  "(nat \<Rightarrow> sj_page response) \<Rightarrow> sj_vacancy option fetched option" where
  "fetch_sj_vacancies get = fetch_sj_loop get 0 True"

section \<open>Statistics aggregators\<close>

text \<open>
  The local variables of \<^verbatim>\<open>get_hh_statistics\<close> and \<^verbatim>\<open>get_sj_statistics\<close> that the
  loop over the fetched pairs assigns. \<open>vacancy_count\<close> is \<open>None\<close> while the variable is
  unbound: it is a target of the \<^verbatim>\<open>for\<close> statement and is assigned nowhere else.
\<close>

record counters =
  vacancy_count :: "int option"
  vacancies_processed :: int
  salaries_sum :: int

text \<open>
  One iteration of \<^verbatim>\<open>for vacancy, vacancy_count in ...\<close>. The two functions differ
  only in the adapter they call, which is the parameter \<open>predict\<close>.
\<close>

definition tally_step ::
  "('v \<Rightarrow> error + int option) \<Rightarrow> 'v option \<times> int \<Rightarrow> counters \<Rightarrow> error + counters" where
  "tally_step predict pair st =
     (case pair of (vacancy, count) \<Rightarrow>
        (let st = st\<lparr>vacancy_count := Some count\<rparr>
         in (case vacancy of
               None \<Rightarrow> Inr st
             | Some v \<Rightarrow>
                 (case predict v of
                    Inl e \<Rightarrow> Inl e
                  | Inr average_rub_salary \<Rightarrow>
                      if \<not> truthy average_rub_salary then Inr st
                      else Inr (st\<lparr>vacancies_processed := vacancies_processed st + 1,
                                   salaries_sum := salaries_sum st + the average_rub_salary\<rparr>)))))"

fun tally ::
  "('v \<Rightarrow> error + int option) \<Rightarrow> ('v option \<times> int) list \<Rightarrow> counters \<Rightarrow> error + counters" where
  "tally predict [] st = Inr st"
| "tally predict (pair # pairs) st =
     (case tally_step predict pair st of
        Inl e \<Rightarrow> Inl e
      | Inr st' \<Rightarrow> tally predict pairs st')"

text \<open>The row \<^verbatim>\<open>[language, vacancy_count, vacancies_processed, int(...)]\<close>, whose
  elements are evaluated from left to right.\<close>

record summary_row =
  language :: string
  totalFound :: int
  totalProcessed :: int
  averageSalary :: int

definition average :: "counters \<Rightarrow> error + int" where
  "average st =
     (if vacancies_processed st \<noteq> 0
        then py_int (true_div (salaries_sum st) (vacancies_processed st))
      else Inr 0)"

definition make_row :: "string \<Rightarrow> counters \<Rightarrow> error + summary_row" where
  "make_row lang st =
     (case vacancy_count st of
        None \<Rightarrow> Inl UnboundLocalError
      | Some n \<Rightarrow>
          (case average st of
             Inl e \<Rightarrow> Inl e
           | Inr a \<Rightarrow>
               Inr \<lparr>language = lang, totalFound = n,
                    totalProcessed = vacancies_processed st, averageSalary = a\<rparr>))"

text \<open>
  The loop \<^verbatim>\<open>for language in languages\<close>. \<open>bound\<close> is the binding of
  \<^verbatim>\<open>vacancy_count\<close> on entry, which an earlier language may have left; the two
  counters are reset for every language. The pairs are consumed as the generator yields
  them, so an exception of the adapter is raised before a later exception of the
  generator; an exception ends the whole function.
\<close>

fun statistics_loop ::
  "('v \<Rightarrow> error + int option) \<Rightarrow> (string \<Rightarrow> 'v option fetched option) \<Rightarrow>
   string list \<Rightarrow> int option \<Rightarrow> summary_row list \<Rightarrow> (error + summary_row list) option" where
  "statistics_loop predict fetch [] bound language_statistics = Some (Inr language_statistics)"
| "statistics_loop predict fetch (lang # languages) bound language_statistics =
     (case fetch lang of
        None \<Rightarrow> None
      | Some vacancies \<Rightarrow>
          (case tally predict (yielded vacancies)
                  \<lparr>vacancy_count = bound, vacancies_processed = 0, salaries_sum = 0\<rparr> of
             Inl e \<Rightarrow> Some (Inl e)
           | Inr st \<Rightarrow>
               (case raised vacancies of
                  Some e \<Rightarrow> Some (Inl e)
                | None \<Rightarrow>
                    (case make_row lang st of
                       Inl e \<Rightarrow> Some (Inl e)
                     | Inr row \<Rightarrow>
                         statistics_loop predict fetch languages (vacancy_count st)
                           (language_statistics @ [row])))))"

definition get_hh_statistics ::
  "(string \<Rightarrow> nat \<Rightarrow> hh_page response) \<Rightarrow> string list \<Rightarrow> (error + summary_row list) option" where
  "get_hh_statistics transport languages =
     statistics_loop predict_rub_salary_hh (\<lambda>lang. fetch_hh_vacancies (transport lang))
       languages None []"

definition get_sj_statistics ::
  "(string \<Rightarrow> nat \<Rightarrow> sj_page response) \<Rightarrow> string list \<Rightarrow> (error + summary_row list) option" where
  "get_sj_statistics transport languages =
     statistics_loop predict_rub_salary_sj (\<lambda>lang. fetch_sj_vacancies (transport lang))
       languages None []"

section \<open>The rules of the specification\<close>

text \<open>
  The definitions of this section follow the words of the specification, not the code;
  the theorems below compare the two.
\<close>

text \<open>Integer division that truncates toward zero.\<close>

definition trunc_div :: "int \<Rightarrow> int \<Rightarrow> int" where
  "trunc_div a b = sgn a * sgn b * (\<bar>a\<bar> div \<bar>b\<bar>)"

text \<open>The rule of the salary predictor as the specification words it, a bound being
  present when it is not \<^verbatim>\<open>None\<close>.\<close>

fun predict_spec :: "int option \<Rightarrow> int option \<Rightarrow> int option" where
  "predict_spec (Some lower) (Some upper) = Some (trunc_div (lower + upper) 2)"
| "predict_spec (Some lower) None = Some (trunc_div (lower * 12) 10)"
| "predict_spec None (Some upper) = Some (trunc_div (upper * 8) 10)"
| "predict_spec None None = None"

text \<open>The zero-as-absent rule: a bound of 0 counts as no bound.\<close>

fun zero_as_absent :: "int option \<Rightarrow> int option" where
  "zero_as_absent None = None"
| "zero_as_absent (Some n) = (if n = 0 then None else Some n)"

text \<open>Bounds small enough for the float arithmetic of the predictor to be exact.\<close>

fun moderate :: "int option \<Rightarrow> bool" where
  "moderate None = True"
| "moderate (Some n) = (\<bar>n\<bar> < 2 ^ 50)"

text \<open>
  What a fetcher is specified to emit for the page of index \<open>p\<close>: every listing of
  the page paired with the total-found count of that same page (nothing for a failed
  request); and what it is specified to do for that page: request it, then emit these
  pairs, before it advances.
\<close>

definition hh_page_pairs :: "hh_page \<Rightarrow> (hh_vacancy option \<times> int) list" where
  "hh_page_pairs c = map (\<lambda>vacancy. (vacancy, found c)) (items c)"

definition hh_emitted :: "(nat \<Rightarrow> hh_page response) \<Rightarrow> nat \<Rightarrow> (hh_vacancy option \<times> int) list" where
  "hh_emitted get p = (case get p of Failed status \<Rightarrow> [] | Page c \<Rightarrow> hh_page_pairs c)"

definition hh_events :: "(nat \<Rightarrow> hh_page response) \<Rightarrow> nat \<Rightarrow> hh_vacancy option event list" where
  "hh_events get p = Request p # map Yield (hh_emitted get p)"

definition sj_page_pairs :: "sj_page \<Rightarrow> (sj_vacancy option \<times> int) list" where
  "sj_page_pairs c = map (\<lambda>vacancy. (vacancy, total c)) (objects c)"

definition sj_emitted :: "(nat \<Rightarrow> sj_page response) \<Rightarrow> nat \<Rightarrow> (sj_vacancy option \<times> int) list" where
  "sj_emitted get p = (case get p of Failed status \<Rightarrow> [] | Page c \<Rightarrow> sj_page_pairs c)"

definition sj_events :: "(nat \<Rightarrow> sj_page response) \<Rightarrow> nat \<Rightarrow> sj_vacancy option event list" where
  "sj_events get p = Request p # map Yield (sj_emitted get p)"

text \<open>
  A run that ends without an exception has requested successful pages only; a run that
  ends with an exception has requested successful pages up to its last request, which
  failed with the status that the exception carries.
\<close>

definition fetch_trace :: "(nat \<Rightarrow> 'p response) \<Rightarrow> 'v fetched \<Rightarrow> bool" where
  "fetch_trace get r \<longleftrightarrow>
     (case raised r of
        None \<Rightarrow> (\<forall>q \<in> set (requested r). \<exists>c. get q = Page c)
      | Some e \<Rightarrow>
          requested r \<noteq> [] \<and>
          (\<forall>q \<in> set (butlast (requested r)). \<exists>c. get q = Page c) \<and>
          (\<exists>status. get (last (requested r)) = Failed status \<and> e = HTTPError status))"

text \<open>
  The prediction of a yielded listing when it has one (the adapter returned an integer),
  the predictions of a fetch sequence that are resolvable in this sense, and those among
  them that are not 0.
\<close>

definition prediction_of :: "('v \<Rightarrow> error + int option) \<Rightarrow> 'v option \<times> int \<Rightarrow> int option" where
  "prediction_of predict pair =
     (case fst pair of
        None \<Rightarrow> None
      | Some v \<Rightarrow> (case predict v of Inl e \<Rightarrow> None | Inr p \<Rightarrow> p))"

definition resolvable :: "('v \<Rightarrow> error + int option) \<Rightarrow> ('v option \<times> int) list \<Rightarrow> int list" where
  "resolvable predict pairs = List.map_filter (prediction_of predict) pairs"

definition counted :: "('v \<Rightarrow> error + int option) \<Rightarrow> ('v option \<times> int) list \<Rightarrow> int list" where
  "counted predict pairs = filter (\<lambda>n. n \<noteq> 0) (resolvable predict pairs)"

text \<open>
  The row that the specification promises for a fetch sequence: as many processed
  listings as there are resolvable predictions, and the floor of their mean, or 0 when
  there is none.
\<close>

definition claimed_row :: "('v \<Rightarrow> error + int option) \<Rightarrow> ('v option \<times> int) list \<Rightarrow> summary_row \<Rightarrow> bool" where
  "claimed_row predict pairs row \<longleftrightarrow>
     totalProcessed row = int (length (resolvable predict pairs)) \<and>
     averageSalary row =
       (if resolvable predict pairs = [] then 0
        else sum_list (resolvable predict pairs) div int (length (resolvable predict pairs)))"

section \<open>Example transports\<close>

text \<open>A transport whose third request fails, and one whose second request fails.\<close>

definition hh_failing :: "nat \<Rightarrow> hh_page response" where
  "hh_failing p =
     (if p = 2 then Failed 500
      else Page \<lparr>items = [Some \<lparr>salary = None\<rparr>], found = 5, pages = 10\<rparr>)"

definition sj_failing :: "nat \<Rightarrow> sj_page response" where
  "sj_failing p =
     (if p = 1 then Failed 403
      else Page \<lparr>objects = [None], total = 9, sj_more = True\<rparr>)"

text \<open>Three pages of ten listings, each page with a total of its own, then an empty last page.\<close>

definition hh_three_pages :: "nat \<Rightarrow> hh_page response" where
  "hh_three_pages p =
     Page \<lparr>items = (if p < 3 then replicate 10 (Some \<lparr>salary = None\<rparr>) else []),
           found = 30 + int p, pages = 3\<rparr>"

definition sj_three_pages :: "nat \<Rightarrow> sj_page response" where
  "sj_three_pages p =
     Page \<lparr>objects = (if p < 3 then replicate 10 None else []),
           total = 30 + int p, sj_more = (p < 3)\<rparr>"

text \<open>Transports that never signal completion.\<close>

definition hh_endless :: "nat \<Rightarrow> hh_page response" where
  "hh_endless p = Page \<lparr>items = [], found = 0, pages = int p + 1\<rparr>"

definition sj_endless :: "nat \<Rightarrow> sj_page response" where
  "sj_endless p = Page \<lparr>objects = [], total = 0, sj_more = True\<rparr>"

text \<open>Listings with a salary in a given currency, and the transports of the example runs:
  the answer depends on the language only, and the first page is the last.\<close>

definition hh_listing :: "string \<Rightarrow> int option \<Rightarrow> int option \<Rightarrow> hh_vacancy option" where
  "hh_listing code lower upper =
     Some \<lparr>salary = Some \<lparr>hh_currency = code, hh_from = lower, hh_to = upper\<rparr>\<rparr>"

definition sj_listing :: "string \<Rightarrow> int option \<Rightarrow> int option \<Rightarrow> sj_vacancy option" where
  "sj_listing code lower upper =
     Some \<lparr>currency = code, payment_from = lower, payment_to = upper\<rparr>"

definition hh_go_ruby :: "string \<Rightarrow> nat \<Rightarrow> hh_page response" where
  "hh_go_ruby lang p =
     (if lang = ''Go''
      then Page \<lparr>items = [hh_listing ''RUR'' (Some 1000) (Some 1000),
                          hh_listing ''USD'' (Some 10) (Some 20),
                          hh_listing ''RUR'' (Some 2000) (Some 2000)],
                 found = 3, pages = 0\<rparr>
      else Page \<lparr>items = [Some \<lparr>salary = None\<rparr>], found = 1, pages = 0\<rparr>)"

definition sj_go_ruby :: "string \<Rightarrow> nat \<Rightarrow> sj_page response" where
  "sj_go_ruby lang p =
     (if lang = ''Go''
      then Page \<lparr>objects = [sj_listing ''rub'' (Some 1000) (Some 1000),
                            sj_listing ''usd'' (Some 10) (Some 20),
                            sj_listing ''rub'' (Some 2000) (Some 2000)],
                 total = 3, sj_more = False\<rparr>
      else Page \<lparr>objects = [sj_listing ''rub'' (Some 0) (Some 0)], total = 1, sj_more = False\<rparr>)"

definition hh_nothing :: "string \<Rightarrow> nat \<Rightarrow> hh_page response" where
  "hh_nothing lang p = Page \<lparr>items = [], found = 0, pages = 0\<rparr>"

definition sj_nothing :: "string \<Rightarrow> nat \<Rightarrow> sj_page response" where
  "sj_nothing lang p = Page \<lparr>objects = [], total = 0, sj_more = False\<rparr>"

definition hh_go_only :: "string \<Rightarrow> nat \<Rightarrow> hh_page response" where
  "hh_go_only lang p =
     (if lang = ''Go''
      then Page \<lparr>items = [hh_listing ''RUR'' (Some 1000) (Some 2000)], found = 7, pages = 0\<rparr>
      else Page \<lparr>items = [], found = 0, pages = 0\<rparr>)"

definition hh_one_rouble :: "string \<Rightarrow> nat \<Rightarrow> hh_page response" where
  "hh_one_rouble lang p =
     Page \<lparr>items = [hh_listing ''RUR'' None (Some 1)], found = 1, pages = 0\<rparr>"

text \<open>The run of a fetcher whose first page is the last.\<close>

definition single_page :: "('v \<times> int) list \<Rightarrow> 'v fetched" where
  "single_page pairs = \<lparr>trace = Request 0 # map Yield pairs, raised = None\<rparr>"

definition go_ruby_rows :: "summary_row list" where
  "go_ruby_rows =
     [\<lparr>language = ''Go'', totalFound = 3, totalProcessed = 2, averageSalary = 1500\<rparr>,
      \<lparr>language = ''Ruby'', totalFound = 1, totalProcessed = 0, averageSalary = 0\<rparr>]"

definition hh_negative :: "string \<Rightarrow> nat \<Rightarrow> hh_page response" where
  "hh_negative lang p =
     Page \<lparr>items = [hh_listing ''RUR'' (Some (- 1)) None,
                     hh_listing ''RUR'' (Some (- 2)) (Some (- 2))],
           found = 2, pages = 0\<rparr>"

definition hh_negative_pairs :: "(hh_vacancy option \<times> int) list" where
  "hh_negative_pairs =
     [(hh_listing ''RUR'' (Some (- 1)) None, 2),
      (hh_listing ''RUR'' (Some (- 2)) (Some (- 2)), 2)]"

text \<open>A page whose three predictions, \<open>2 ^ 53\<close>, \<open>2 ^ 53\<close> and \<open>2 ^ 53 + 4\<close>, have a mean
  that no double represents.\<close>

definition hh_large :: "string \<Rightarrow> nat \<Rightarrow> hh_page response" where
  "hh_large lang p =
     Page \<lparr>items = [hh_listing ''RUR'' (Some 9007199254740992) (Some 9007199254740992),
                     hh_listing ''RUR'' (Some 9007199254740992) (Some 9007199254740992),
                     hh_listing ''RUR'' (Some 9007199254740996) (Some 9007199254740996)],
           found = 3, pages = 0\<rparr>"

definition hh_large_pairs :: "(hh_vacancy option \<times> int) list" where
  "hh_large_pairs =
     [(hh_listing ''RUR'' (Some 9007199254740992) (Some 9007199254740992), 3),
      (hh_listing ''RUR'' (Some 9007199254740992) (Some 9007199254740992), 3),
      (hh_listing ''RUR'' (Some 9007199254740996) (Some 9007199254740996), 3)]"

section \<open>Rounding to a double\<close>

lemma bitlen_powi_bounds:
  fixes p :: int
  assumes "0 < p"
  shows "(2::rat) powi (bitlen p - 1) \<le> of_int p" and "of_int p < (2::rat) powi (bitlen p)"
proof -
  from bitlen_bounds[OF assms] have a: "2 ^ nat (bitlen p - 1) \<le> p" and b: "p < 2 ^ nat (bitlen p)"
    by auto
  have ge: "1 \<le> bitlen p" using assms bitlen_eq_zero_iff[of p] bitlen_nonneg[of p] by linarith
  have "(of_int (2 ^ nat (bitlen p - 1)) :: rat) \<le> of_int p" using a by (simp only: of_int_le_iff)
  then show "(2::rat) powi (bitlen p - 1) \<le> of_int p"
    using ge by (simp add: power_int_def)
  have "(of_int p :: rat) < of_int (2 ^ nat (bitlen p))" using b by (simp only: of_int_less_iff)
  then show "of_int p < (2::rat) powi (bitlen p)"
    using ge by (simp add: power_int_def)
qed

lemma ilog2_bounds:
  assumes "0 < x"
  shows "2 powi (ilog2 x) \<le> x" and "x < 2 powi (ilog2 x + 1)"
proof -
  obtain p q where pq: "quotient_of x = (p, q)" by (cases "quotient_of x")
  then have q: "0 < q" and x: "x = of_int p / of_int q"
    using quotient_of_denom_pos[OF pq] quotient_of_div[OF pq] by auto
  have p: "0 < p" using assms q x by (simp add: zero_less_divide_iff)
  define d where "d = bitlen p - bitlen q"
  have il: "ilog2 x = (if 2 powi d \<le> x then d else d - 1)"
    by (simp add: ilog2_def pq d_def Let_def)
  note bp = bitlen_powi_bounds[OF p] and bq = bitlen_powi_bounds[OF q]
  have qpos: "(0::rat) < of_int q" using q by simp
  have lo: "2 powi (d - 1) \<le> x"
  proof -
    have "(2::rat) powi (d - 1) * of_int q \<le> 2 powi (d - 1) * 2 powi (bitlen q)"
      using bq(2) by (intro mult_left_mono) auto
    also have "\<dots> = 2 powi (bitlen p - 1)"
      by (simp add: d_def power_int_add[symmetric])
    also have "\<dots> \<le> of_int p" by (rule bp(1))
    finally show ?thesis using qpos by (simp add: x pos_le_divide_eq)
  qed
  have hi: "x < 2 powi (d + 1)"
  proof -
    have "(of_int p :: rat) < 2 powi (bitlen p)" by (rule bp(2))
    also have "\<dots> = 2 powi (d + 1) * 2 powi (bitlen q - 1)"
      by (simp add: d_def power_int_add[symmetric])
    also have "\<dots> \<le> 2 powi (d + 1) * of_int q"
      using bq(1) by (intro mult_left_mono) auto
    finally show ?thesis using qpos by (simp add: x pos_divide_less_eq)
  qed
  show "2 powi (ilog2 x) \<le> x" using lo by (simp add: il)
  show "x < 2 powi (ilog2 x + 1)" using hi by (auto simp add: il not_le)
qed

lemma round_half_even_ge: "of_int A - 1 / 2 < y \<Longrightarrow> A \<le> round_half_even y"
  unfolding round_half_even_def Let_def by (auto; linarith)

lemma round_half_even_le: "y < of_int B + 1 / 2 \<Longrightarrow> round_half_even y \<le> B"
  unfolding round_half_even_def Let_def by (auto; linarith)

lemma round_half_even_of_int: "round_half_even (of_int n) = n"
  by (simp add: round_half_even_def)

lemma binary64_minus: "binary64 (- x) = - binary64 x"
  by (simp add: binary64_def Let_def)

lemma trunc_minus: "trunc (- x) = - trunc x"
  by (auto simp add: trunc_def)

lemma binary64_grid:
  fixes x :: rat and t :: nat
  assumes x: "0 < x" and t: "x < 2 ^ t" "t \<le> 53"
  obtains G :: int where "2 ^ (53 - t) \<le> G" "x * of_int G < 2 ^ 53"
    "binary64 x = of_int (round_half_even (x * of_int G)) / of_int G"
    "G = 2 ^ 1074 \<or> 2 ^ 52 \<le> x * of_int G"
proof -
  define e where "e = max (ilog2 x - 52) (- 1074)"
  note il = ilog2_bounds[OF x]
  have "(2::rat) powi (ilog2 x) < 2 powi (int t)"
    using il(1) t(1) by (simp add: power_int_def)
  then have "ilog2 x < int t" by (rule power_int_le_imp_less_exp[rotated]) auto
  then have e_le: "e \<le> int t - 53" using t(2) by (simp add: e_def)
  define G :: int where "G = 2 ^ nat (- e)"
  have g: "(of_int G :: rat) = 2 powi (- e)"
    using e_le t(2) by (simp add: G_def power_int_def)
  have gpos: "(0::rat) < of_int G" by (simp add: G_def)
  have inv: "(2::rat) powi e = 1 / of_int G"
    by (simp add: g power_int_minus field_simps)
  have 1: "2 ^ (53 - t) \<le> G"
    unfolding G_def using e_le t(2) by (intro power_increasing) auto
  have "x < 2 powi (ilog2 x + 1)" by (rule il(2))
  also have "\<dots> \<le> 2 powi (e + 53)" by (intro power_int_increasing) (auto simp: e_def)
  also have "\<dots> = 2 ^ 53 * 2 powi e" by (simp add: power_int_add)
  finally have 2: "x * of_int G < 2 ^ 53"
    using gpos by (simp add: inv pos_less_divide_eq)
  have 3: "binary64 x = of_int (round_half_even (x * of_int G)) / of_int G"
    using x by (simp add: binary64_def Let_def e_def[symmetric] inv)
  have 4: "G = 2 ^ 1074 \<or> 2 ^ 52 \<le> x * of_int G"
  proof (cases "e = - 1074")
    case True
    then show ?thesis by (simp add: G_def)
  next
    case False
    then have "e = ilog2 x - 52" by (simp add: e_def max_def split: if_splits)
    then have "2 powi (e + 52) \<le> x" using il(1) by simp
    then have "2 ^ 52 * 2 powi e \<le> x" by (simp add: power_int_add)
    then show ?thesis using gpos by (simp add: inv pos_divide_le_eq)
  qed
  from 1 2 3 4 show ?thesis by (rule that)
qed

lemma trunc_binary64_core:
  fixes x :: rat and G Q :: int
  assumes "0 < G" "0 \<le> Q"
    and b: "binary64 x = of_int (round_half_even (x * of_int G)) / of_int G"
    and lo: "of_int (Q * G) - 1 / 2 < x * of_int G"
    and hi: "x * of_int G + 1 / 2 < of_int ((Q + 1) * G)"
  shows "trunc (binary64 x) = Q"
proof -
  define m where "m = round_half_even (x * of_int G)"
  have m1: "Q * G \<le> m" unfolding m_def using lo by (rule round_half_even_ge)
  have "x * of_int G < of_int ((Q + 1) * G - 1) + 1 / 2" using hi by simp
  then have m2: "m \<le> (Q + 1) * G - 1" unfolding m_def by (rule round_half_even_le)
  have "0 \<le> m" using m1 assms(1,2) by (meson mult_nonneg_nonneg order_trans less_imp_le)
  have gpos: "(0::rat) < of_int G" using assms(1) by simp
  have "(of_int (Q * G) :: rat) \<le> of_int m" using m1 by (simp only: of_int_le_iff)
  then have f1: "(of_int Q :: rat) \<le> of_int m / of_int G"
    using gpos by (simp add: pos_le_divide_eq)
  have "(of_int m :: rat) < of_int ((Q + 1) * G)" using m2 by (simp only: of_int_less_iff)
  then have f2: "(of_int m :: rat) / of_int G < of_int Q + 1"
    using gpos by (simp add: pos_divide_less_eq)
  have "\<lfloor>(of_int m :: rat) / of_int G\<rfloor> = Q"
    using f1 f2 by (rule floor_unique)
  moreover have "(0::rat) \<le> of_int m / of_int G" using \<open>0 \<le> m\<close> assms(1) by simp
  ultimately show ?thesis by (simp add: b m_def[symmetric] trunc_def)
qed

lemma float_1_2_value: "float_1_2 = 5404319552844595 / 2 ^ 52"
  by code_simp

lemma float_0_8_value: "float_0_8 = 3602879701896397 / 2 ^ 52"
  by code_simp

lemma binary64_small_int:
  fixes n :: int
  assumes "\<bar>n\<bar> < 2 ^ 53"
  shows "binary64 (of_int n) = of_int n"
proof -
  have pos: "binary64 (of_int m) = of_int m" if m: "0 < m" "m < 2 ^ 53" for m :: int
  proof -
    have "(of_int m :: rat) < of_int (2 ^ 53)" using m(2) by (simp only: of_int_less_iff)
    then have lt: "(of_int m :: rat) < 2 ^ 53" by simp
    have gt: "(0::rat) < of_int m" using m(1) by simp
    obtain G :: int where G: "2 ^ (53 - 53) \<le> G"
      "of_int m * of_int G < (2::rat) ^ 53"
      "binary64 (of_int m) = of_int (round_half_even (of_int m * of_int G)) / of_int G"
      "G = 2 ^ 1074 \<or> 2 ^ 52 \<le> (of_int m :: rat) * of_int G"
      by (rule binary64_grid[OF gt lt]) auto
    have "round_half_even (of_int m * of_int G) = m * G"
      using round_half_even_of_int[of "m * G"] by simp
    then show ?thesis using G by simp
  qed
  consider "n = 0" | "0 < n" | "n < 0" by linarith
  then show ?thesis
  proof cases
    case 1
    then show ?thesis by (simp add: binary64_def)
  next
    case 2
    then show ?thesis using pos[of n] assms by simp
  next
    case 3
    then have "binary64 (of_int (- n)) = of_int (- n)" using pos[of "- n"] assms by simp
    then show ?thesis by (simp add: binary64_minus)
  qed
qed

lemma trunc_binary64_quotient:
  fixes S k :: int
  assumes S: "0 \<le> S" "S < 2 ^ 53" and k: "0 < k"
  shows "trunc (binary64 (of_int S / of_int k)) = S div k"
proof (cases "S = 0")
  case True
  then show ?thesis by (simp add: binary64_def trunc_def)
next
  case False
  define x :: rat where "x = of_int S / of_int k"
  define Q where "Q = S div k"
  define f where "f = S mod k"
  have Sqf: "S = Q * k + f" by (simp add: Q_def f_def)
  have f: "0 \<le> f" "f < k" using k by (simp_all add: f_def)
  have Q: "0 \<le> Q" using S(1) k by (simp add: Q_def pos_imp_zdiv_nonneg_iff)
  have kpos: "(0::rat) < of_int k" using k by simp
  have k1: "(1::rat) \<le> of_int k" using k by (simp add: of_int_1_le_iff[symmetric] del: of_int_1_le_iff)
  have xpos: "0 < x" using False S(1) k by (simp add: x_def zero_less_divide_iff)
  have "x \<le> of_int S" using k1 S(1) by (simp add: x_def pos_divide_le_eq mult_le_cancel_left1)
  also have "(of_int S :: rat) < of_int (2 ^ 53)" using S(2) by (simp only: of_int_less_iff)
  finally have xlt: "x < 2 ^ 53" by simp
  obtain G :: int where G: "2 ^ (53 - 53) \<le> G" "x * of_int G < 2 ^ 53"
      "binary64 x = of_int (round_half_even (x * of_int G)) / of_int G"
      "G = 2 ^ 1074 \<or> 2 ^ 52 \<le> x * of_int G"
    by (rule binary64_grid[OF xpos xlt]) auto
  have Gpos: "0 < G" using G(1) by simp
  have gpos: "(0::rat) < of_int G" using Gpos by simp
  have xk: "x * of_int k = of_int S" using kpos by (simp add: x_def)
  have "x * of_int G * of_int k = (x * of_int k) * of_int G" by (simp add: mult_ac)
  also have "\<dots> = of_int S * of_int G" by (simp only: xk)
  also have "\<dots> = of_int (Q * G) * of_int k + of_int f * of_int G"
    by (simp add: Sqf algebra_simps)
  finally have y: "x * of_int G * of_int k = of_int (Q * G) * of_int k + of_int f * of_int G" .
  have lo: "of_int (Q * G) - 1 / 2 < x * of_int G"
  proof -
    have "of_int (Q * G) * (of_int k :: rat) \<le> x * of_int G * of_int k"
      using f(1) Gpos by (simp add: y)
    then have "of_int (Q * G) \<le> x * of_int G" using kpos by (simp only: mult_le_cancel_right_pos)
    then show ?thesis by linarith
  qed
  have hi: "x * of_int G + 1 / 2 < of_int ((Q + 1) * G)"
  proof (cases "2 ^ 52 \<le> x * of_int G")
    case True
    then have "2 ^ 52 * of_int k \<le> x * of_int G * of_int k"
      using kpos by (simp only: mult_le_cancel_right_pos)
    also have "\<dots> = (x * of_int k) * of_int G" by (simp add: mult_ac)
    also have "\<dots> = of_int S * of_int G" by (simp only: xk)
    also have "\<dots> < 2 ^ 53 * of_int G"
    proof -
      have "(of_int S :: rat) < of_int (2 ^ 53)" using S(2) by (simp only: of_int_less_iff)
      then show ?thesis using gpos by simp
    qed
    finally have kG: "(of_int k :: rat) < 2 * of_int G" by simp
    have "(1::rat) \<le> of_int (k - f)" using f(2) by (simp add: of_int_1_le_iff[symmetric] del: of_int_1_le_iff of_int_diff)
    then have "of_int G * (1::rat) \<le> of_int G * of_int (k - f)"
      using gpos by (simp only: mult_le_cancel_left_pos)
    then have "of_int f * of_int G + (of_int G :: rat) \<le> of_int G * of_int k"
      by (simp add: algebra_simps)
    then have fG: "of_int f * of_int G + (of_int G :: rat) \<le> of_int G * of_int k" .
    have "(x * of_int G + 1 / 2) * of_int k = x * of_int G * of_int k + of_int k / 2"
      by (simp add: distrib_right)
    also have "\<dots> = of_int (Q * G) * of_int k + of_int f * of_int G + of_int k / 2"
      by (simp only: y)
    also have "\<dots> < of_int (Q * G) * of_int k + of_int f * of_int G + of_int G"
      using kG by simp
    also have "\<dots> \<le> of_int (Q * G) * of_int k + of_int G * of_int k"
      using fG by simp
    also have "\<dots> = of_int ((Q + 1) * G) * of_int k"
      by (simp add: algebra_simps)
    finally have "(x * of_int G + 1 / 2) * of_int k < of_int ((Q + 1) * G) * of_int k" .
    then show ?thesis using kpos by (simp only: mult_less_cancel_right_pos)
  next
    case False
    with G(4) have G4: "G = 2 ^ 1074" by simp
    have "x * of_int G + 1 / 2 < 2 ^ 52 + 1 / 2" using False by simp
    also have "\<dots> < (of_int G :: rat)" by (simp add: G4)
    also have "\<dots> \<le> of_int ((Q + 1) * G)"
      using Q Gpos by (simp only: of_int_le_iff) (simp add: mult_le_cancel_right1)
    finally show ?thesis .
  qed
  have "trunc (binary64 x) = Q"
    using Gpos Q G(3) lo hi by (rule trunc_binary64_core)
  then show ?thesis by (simp add: x_def Q_def)
qed

lemma trunc_binary64_times_1_2:
  fixes n :: int
  assumes n: "0 < n" "n < 2 ^ 50"
  shows "trunc (binary64 (of_int n * float_1_2)) = (n * 12) div 10"
proof -
  define x :: rat where "x = of_int n * float_1_2"
  define Q where "Q = (n * 6) div 5"
  define f where "f = (n * 6) mod 5"
  have nQf: "n * 6 = Q * 5 + f" by (simp add: Q_def f_def)
  have f: "0 \<le> f" "f \<le> 4" by (simp_all add: f_def)
  have Q: "0 \<le> Q" using n(1) by (simp add: Q_def pos_imp_zdiv_nonneg_iff)
  have npos: "(0::rat) < of_int n" using n(1) by simp
  have "(of_int n :: rat) < of_int (2 ^ 50)" using n(2) by (simp only: of_int_less_iff)
  then have nlt: "(of_int n :: rat) < 2 ^ 50" by simp
  have xn: "x * 2 ^ 52 = 5404319552844595 * of_int n"
    by (simp add: x_def float_1_2_value)
  have xpos: "0 < x" using npos by (simp add: x_def float_1_2_value)
  have xlt: "x < 2 ^ 51" using nlt xn by simp
  obtain G :: int where G: "2 ^ (53 - 51) \<le> G" "x * of_int G < 2 ^ 53"
      "binary64 x = of_int (round_half_even (x * of_int G)) / of_int G"
      "G = 2 ^ 1074 \<or> 2 ^ 52 \<le> x * of_int G"
    by (rule binary64_grid[OF xpos xlt]) auto
  have G4: "4 \<le> G" using G(1) by simp
  then have Gpos: "0 < G" by simp
  have g4: "(4::rat) \<le> of_int G" using G4 by (simp only: of_int_numeral[symmetric, where ?'a = rat] of_int_le_iff)
  define u :: rat where "u = of_int n * of_int G"
  define w :: rat where "w = of_int (Q * G)"
  define v :: rat where "v = of_int (f * G)"
  define y :: rat where "y = x * of_int G"
  have upos: "0 \<le> u" using npos g4 by (simp add: u_def)
  have "of_int (n * 6 * G) = (of_int ((Q * 5 + f) * G) :: rat)" by (simp only: nQf)
  then have uwv: "6 * u = 5 * w + v" by (simp add: u_def w_def v_def algebra_simps)
  have v0: "0 \<le> v" using f(1) Gpos by (simp add: v_def)
  have "f * G \<le> 4 * G" using f(2) Gpos by simp
  then have "(of_int (f * G) :: rat) \<le> of_int (4 * G)" by (simp only: of_int_le_iff)
  then have v4: "v \<le> 4 * of_int G" by (simp add: v_def)
  have "y * 2 ^ 52 = (x * 2 ^ 52) * of_int G" unfolding y_def by (simp only: mult_ac)
  also have "\<dots> = (5404319552844595 * of_int n) * of_int G" by (simp only: xn)
  also have "\<dots> = 5404319552844595 * u" unfolding u_def by (simp only: mult_ac)
  finally have yu: "y * 2 ^ 52 = 5404319552844595 * u" .
  have ylt: "y < 2 ^ 53" using G(2) by (simp add: y_def)
  have lo: "w - 1 / 2 < y" using yu ylt uwv v0 upos by simp
  have hi: "y + 1 / 2 < w + of_int G" using yu uwv v4 upos g4 by simp
  have "trunc (binary64 x) = Q"
  proof (rule trunc_binary64_core[OF Gpos Q G(3)])
    show "of_int (Q * G) - 1 / 2 < x * of_int G" using lo by (simp add: w_def y_def)
    show "x * of_int G + 1 / 2 < of_int ((Q + 1) * G)"
      using hi by (simp add: w_def y_def algebra_simps)
  qed
  moreover have "(n * 12) div 10 = Q"
  proof -
    have "(n * 12) div 10 = (2 * (n * 6)) div (2 * 5)" by simp
    also have "\<dots> = (n * 6) div 5" by (rule div_mult_mult1) simp
    finally show ?thesis by (simp add: Q_def)
  qed
  ultimately show ?thesis by (simp add: x_def)
qed

lemma trunc_binary64_times_0_8:
  fixes n :: int
  assumes n: "0 < n" "n < 2 ^ 50"
  shows "trunc (binary64 (of_int n * float_0_8)) = (n * 8) div 10"
proof -
  define x :: rat where "x = of_int n * float_0_8"
  define Q where "Q = (n * 4) div 5"
  define f where "f = (n * 4) mod 5"
  have nQf: "n * 4 = Q * 5 + f" by (simp add: Q_def f_def)
  have f: "0 \<le> f" "f \<le> 4" by (simp_all add: f_def)
  have Q: "0 \<le> Q" using n(1) by (simp add: Q_def pos_imp_zdiv_nonneg_iff)
  have npos: "(0::rat) < of_int n" using n(1) by simp
  have "(of_int n :: rat) < of_int (2 ^ 50)" using n(2) by (simp only: of_int_less_iff)
  then have nlt: "(of_int n :: rat) < 2 ^ 50" by simp
  have xn: "x * 2 ^ 52 = 3602879701896397 * of_int n"
    by (simp add: x_def float_0_8_value)
  have xpos: "0 < x" using npos by (simp add: x_def float_0_8_value)
  have xlt: "x < 2 ^ 50" using nlt xn npos by simp
  obtain G :: int where G: "2 ^ (53 - 50) \<le> G" "x * of_int G < 2 ^ 53"
      "binary64 x = of_int (round_half_even (x * of_int G)) / of_int G"
      "G = 2 ^ 1074 \<or> 2 ^ 52 \<le> x * of_int G"
    by (rule binary64_grid[OF xpos xlt]) auto
  have G8: "8 \<le> G" using G(1) by simp
  then have Gpos: "0 < G" by simp
  have g8: "(8::rat) \<le> of_int G" using G8 by (simp only: of_int_numeral[symmetric, where ?'a = rat] of_int_le_iff)
  define u :: rat where "u = of_int n * of_int G"
  define w :: rat where "w = of_int (Q * G)"
  define v :: rat where "v = of_int (f * G)"
  define y :: rat where "y = x * of_int G"
  have upos: "0 \<le> u" using npos g8 by (simp add: u_def)
  have "of_int (n * 4 * G) = (of_int ((Q * 5 + f) * G) :: rat)" by (simp only: nQf)
  then have uwv: "4 * u = 5 * w + v" by (simp add: u_def w_def v_def algebra_simps)
  have v0: "0 \<le> v" using f(1) Gpos by (simp add: v_def)
  have "f * G \<le> 4 * G" using f(2) Gpos by simp
  then have "(of_int (f * G) :: rat) \<le> of_int (4 * G)" by (simp only: of_int_le_iff)
  then have v4: "v \<le> 4 * of_int G" by (simp add: v_def)
  have "y * 2 ^ 52 = (x * 2 ^ 52) * of_int G" unfolding y_def by (simp only: mult_ac)
  also have "\<dots> = (3602879701896397 * of_int n) * of_int G" by (simp only: xn)
  also have "\<dots> = 3602879701896397 * u" unfolding u_def by (simp only: mult_ac)
  finally have yu: "y * 2 ^ 52 = 3602879701896397 * u" .
  have ylt: "y < 2 ^ 53" using G(2) by (simp add: y_def)
  have lo: "w - 1 / 2 < y" using yu uwv v0 upos by simp
  have hi: "y + 1 / 2 < w + of_int G" using yu ylt uwv v4 upos g8 by simp
  have "trunc (binary64 x) = Q"
  proof (rule trunc_binary64_core[OF Gpos Q G(3)])
    show "of_int (Q * G) - 1 / 2 < x * of_int G" using lo by (simp add: w_def y_def)
    show "x * of_int G + 1 / 2 < of_int ((Q + 1) * G)"
      using hi by (simp add: w_def y_def algebra_simps)
  qed
  moreover have "(n * 8) div 10 = Q"
  proof -
    have "(n * 8) div 10 = (2 * (n * 4)) div (2 * 5)" by simp
    also have "\<dots> = (n * 4) div 5" by (rule div_mult_mult1) simp
    finally show ?thesis by (simp add: Q_def)
  qed
  ultimately show ?thesis by (simp add: x_def)
qed

lemma binary64_bound:
  assumes "\<bar>x\<bar> < 2 ^ 53"
  shows "\<bar>binary64 x\<bar> \<le> 2 ^ 53"
proof -
  have pos: "\<bar>binary64 z\<bar> \<le> 2 ^ 53" if z: "0 < z" "z < 2 ^ 53" for z :: rat
  proof -
    obtain G :: int where G: "2 ^ (53 - 53) \<le> G" "z * of_int G < 2 ^ 53"
        "binary64 z = of_int (round_half_even (z * of_int G)) / of_int G"
        "G = 2 ^ 1074 \<or> 2 ^ 52 \<le> z * of_int G"
      by (rule binary64_grid[OF z]) auto
    define m where "m = round_half_even (z * of_int G)"
    have G1: "1 \<le> G" using G(1) by simp
    then have g1: "(1::rat) \<le> of_int G" by (simp only: of_int_1_le_iff)
    have "z * of_int G < of_int (2 ^ 53) + 1 / 2" using G(2) by simp
    then have m_le: "m \<le> 2 ^ 53" unfolding m_def by (rule round_half_even_le)
    have "of_int 0 - 1 / 2 < z * of_int G" using z(1) g1
      by (simp add: less_le_trans[of _ 0] less_imp_le)
    then have m_ge: "0 \<le> m" unfolding m_def by (rule round_half_even_ge)
    have "(of_int m :: rat) \<le> of_int (2 ^ 53)" using m_le by (simp only: of_int_le_iff)
    then have m53: "(of_int m :: rat) \<le> 2 ^ 53" by simp
    have m0: "(0::rat) \<le> of_int m" using m_ge by simp
    have "(of_int m :: rat) / of_int G \<le> of_int m"
      using g1 m0 by (simp add: divide_le_eq mult_le_cancel_left1)
    then have "(of_int m :: rat) / of_int G \<le> 2 ^ 53" using m53 by linarith
    moreover have "(0::rat) \<le> of_int m / of_int G" using m0 g1 by simp
    ultimately show ?thesis by (simp add: G(3) m_def[symmetric])
  qed
  consider "x = 0" | "0 < x" | "x < 0" by linarith
  then show ?thesis
  proof cases
    case 1
    then show ?thesis by (simp add: binary64_def)
  next
    case 2
    then show ?thesis using pos[of x] assms by simp
  next
    case 3
    then have "\<bar>binary64 (- x)\<bar> \<le> 2 ^ 53" using pos[of "- x"] assms by simp
    then show ?thesis by (simp add: binary64_minus)
  qed
qed

lemma to_float_finite: "\<bar>x\<bar> < 2 ^ 53 \<Longrightarrow> to_float x = Finite (binary64 x)"
proof -
  assume "\<bar>x\<bar> < 2 ^ 53"
  then have "\<bar>binary64 x\<bar> \<le> 2 ^ 53" by (rule binary64_bound)
  moreover have "(2::rat) ^ 53 < 2 ^ 1024" by (rule power_strict_increasing) auto
  ultimately have "\<not> 2 ^ 1024 \<le> \<bar>binary64 x\<bar>" by linarith
  then show ?thesis by (simp add: to_float_def Let_def)
qed

lemma rat_of_int_abs_less:
  fixes n :: int
  assumes "\<bar>n\<bar> < 2 ^ k"
  shows "\<bar>of_int n :: rat\<bar> < 2 ^ k"
proof -
  have "(of_int \<bar>n\<bar> :: rat) < of_int (2 ^ k)" using assms by (simp only: of_int_less_iff)
  then show ?thesis by simp
qed

lemma float_of_int_small:
  assumes "\<bar>n\<bar> < 2 ^ 53"
  shows "float_of_int n = Inr (of_int n)"
  using assms
  by (simp add: float_of_int_def to_float_finite rat_of_int_abs_less binary64_small_int)

lemma trunc_binary64_quotient_signed:
  fixes S k :: int
  assumes S: "\<bar>S\<bar> < 2 ^ 53" and k: "0 < k"
  shows "trunc (binary64 (of_int S / of_int k)) = trunc_div S k"
proof (cases "0 \<le> S")
  case True
  then have "trunc (binary64 (of_int S / of_int k)) = S div k"
    using S k by (intro trunc_binary64_quotient) auto
  moreover have "trunc_div S k = S div k"
    using True k by (cases "S = 0") (simp_all add: trunc_div_def)
  ultimately show ?thesis by simp
next
  case False
  then have "trunc (binary64 (of_int (- S) / of_int k)) = (- S) div k"
    using S k by (intro trunc_binary64_quotient) auto
  then have "trunc (binary64 (of_int S / of_int k)) = - ((- S) div k)"
    using binary64_minus[of "of_int S / of_int k"] trunc_minus[of "binary64 (of_int S / of_int k)"]
    by simp
  moreover have "trunc_div S k = - ((- S) div k)"
    using False k by (simp add: trunc_div_def)
  ultimately show ?thesis by simp
qed

lemma py_int_true_div:
  fixes S k :: int
  assumes S: "\<bar>S\<bar> < 2 ^ 53" and k: "0 < k"
  shows "py_int (true_div S k) = Inr (trunc_div S k)"
proof -
  have k1: "(1::rat) \<le> of_int k" using k by (simp add: of_int_1_le_iff[symmetric] del: of_int_1_le_iff)
  have "\<bar>of_int S / of_int k :: rat\<bar> \<le> \<bar>of_int S\<bar>"
    using k1 by (simp add: divide_le_eq mult_le_cancel_left1)
  also have "\<dots> < 2 ^ 53" using S by (rule rat_of_int_abs_less)
  finally have "to_float (of_int S / of_int k) = Finite (binary64 (of_int S / of_int k))"
    by (rule to_float_finite)
  then show ?thesis
    using k trunc_binary64_quotient_signed[OF S k]
    by (simp add: py_int_def true_div_def int_of_float_def)
qed

lemma times_literal_finite:
  fixes n :: int
  assumes n: "\<bar>n\<bar> < 2 ^ 50" and c: "0 \<le> c" "c \<le> 2"
  shows "to_float (of_int n * c) = Finite (binary64 (of_int n * c))"
proof -
  have "\<bar>of_int n :: rat\<bar> < 2 ^ 50" using n by (rule rat_of_int_abs_less)
  moreover have "\<bar>of_int n * c\<bar> \<le> \<bar>of_int n\<bar> * 2"
    using c by (simp add: abs_mult mult_left_mono)
  ultimately have "\<bar>of_int n * c\<bar> < 2 ^ 53" by simp
  then show ?thesis by (rule to_float_finite)
qed

lemma trunc_binary64_times_1_2_signed:
  fixes n :: int
  assumes n: "\<bar>n\<bar> < 2 ^ 50"
  shows "trunc (binary64 (of_int n * float_1_2)) = trunc_div (n * 12) 10"
proof -
  consider "n = 0" | "0 < n" | "n < 0" by linarith
  then show ?thesis
  proof cases
    case 1
    then show ?thesis by (simp add: binary64_def trunc_def trunc_div_def)
  next
    case 2
    then have "trunc (binary64 (of_int n * float_1_2)) = (n * 12) div 10"
      using n by (intro trunc_binary64_times_1_2) auto
    then show ?thesis using 2 by (simp add: trunc_div_def)
  next
    case 3
    then have "trunc (binary64 (of_int (- n) * float_1_2)) = (- n * 12) div 10"
      using n by (intro trunc_binary64_times_1_2) auto
    then have "trunc (binary64 (of_int n * float_1_2)) = - ((- n * 12) div 10)"
      using binary64_minus[of "of_int n * float_1_2"]
        trunc_minus[of "binary64 (of_int n * float_1_2)"] by simp
    then show ?thesis using 3 by (simp add: trunc_div_def)
  qed
qed

lemma trunc_binary64_times_0_8_signed:
  fixes n :: int
  assumes n: "\<bar>n\<bar> < 2 ^ 50"
  shows "trunc (binary64 (of_int n * float_0_8)) = trunc_div (n * 8) 10"
proof -
  consider "n = 0" | "0 < n" | "n < 0" by linarith
  then show ?thesis
  proof cases
    case 1
    then show ?thesis by (simp add: binary64_def trunc_def trunc_div_def)
  next
    case 2
    then have "trunc (binary64 (of_int n * float_0_8)) = (n * 8) div 10"
      using n by (intro trunc_binary64_times_0_8) auto
    then show ?thesis using 2 by (simp add: trunc_div_def)
  next
    case 3
    then have "trunc (binary64 (of_int (- n) * float_0_8)) = (- n * 8) div 10"
      using n by (intro trunc_binary64_times_0_8) auto
    then have "trunc (binary64 (of_int n * float_0_8)) = - ((- n * 8) div 10)"
      using binary64_minus[of "of_int n * float_0_8"]
        trunc_minus[of "binary64 (of_int n * float_0_8)"] by simp
    then show ?thesis using 3 by (simp add: trunc_div_def)
  qed
qed

lemma py_int_times_1_2:
  fixes n :: int
  assumes n: "\<bar>n\<bar> < 2 ^ 50"
  shows "py_int (int_mul_float n float_1_2) = Inr (trunc_div (n * 12) 10)"
proof -
  have "\<bar>n\<bar> < 2 ^ 53" using n by (rule less_trans) simp
  then have "float_of_int n = Inr (of_int n)" by (rule float_of_int_small)
  moreover have "to_float (of_int n * float_1_2) = Finite (binary64 (of_int n * float_1_2))"
    using n by (rule times_literal_finite) (simp_all add: float_1_2_value)
  ultimately show ?thesis
    using trunc_binary64_times_1_2_signed[OF n]
    by (simp add: py_int_def int_mul_float_def int_of_float_def)
qed

lemma py_int_times_0_8:
  fixes n :: int
  assumes n: "\<bar>n\<bar> < 2 ^ 50"
  shows "py_int (int_mul_float n float_0_8) = Inr (trunc_div (n * 8) 10)"
proof -
  have "\<bar>n\<bar> < 2 ^ 53" using n by (rule less_trans) simp
  then have "float_of_int n = Inr (of_int n)" by (rule float_of_int_small)
  moreover have "to_float (of_int n * float_0_8) = Finite (binary64 (of_int n * float_0_8))"
    using n by (rule times_literal_finite) (simp_all add: float_0_8_value)
  ultimately show ?thesis
    using trunc_binary64_times_0_8_signed[OF n]
    by (simp add: py_int_def int_mul_float_def int_of_float_def)
qed

lemma predict_salary_moderate:
  assumes "moderate salary_from" "moderate salary_to"
  shows "predict_salary salary_from salary_to =
         Inr (predict_spec (zero_as_absent salary_from) (zero_as_absent salary_to))"
proof (cases salary_from)
  case None
  show ?thesis
  proof (cases salary_to)
    case None
    with \<open>salary_from = None\<close> show ?thesis by (simp add: predict_salary_def)
  next
    case (Some b)
    with \<open>salary_from = None\<close> assms(2) show ?thesis
      by (simp add: predict_salary_def returning_def py_int_times_0_8)
  qed
next
  case (Some a)
  note a = this
  show ?thesis
  proof (cases salary_to)
    case None
    with a assms(1) show ?thesis
      by (simp add: predict_salary_def returning_def py_int_times_1_2)
  next
    case (Some b)
    have "\<bar>a + b\<bar> < 2 ^ 53" using a Some assms by simp
    then have "py_int (true_div (a + b) 2) = Inr (trunc_div (a + b) 2)"
      by (rule py_int_true_div) simp
    with a Some assms show ?thesis
      by (simp add: predict_salary_def returning_def py_int_times_1_2 py_int_times_0_8)
  qed
qed

text \<open>A midpoint that no double represents: \<open>2 ^ 54 + 1\<close> is rounded to \<open>2 ^ 54\<close>.\<close>

lemma floor_large_quarter: "\<lfloor>(18014398509481985::rat) / 4\<rfloor> = 4503599627370496"
  by (rule floor_unique) simp_all

lemma ilog2_large: "ilog2 18014398509481985 = 54"
  by (simp add: ilog2_def Let_def compute_bitlen)

lemma round_large_quarter: "round_half_even (18014398509481985 / 4) = 4503599627370496"
  by (simp add: round_half_even_def Let_def floor_large_quarter)

lemma binary64_large: "binary64 18014398509481985 = 18014398509481984"
  by (simp add: binary64_def ilog2_large round_large_quarter)

lemma predict_salary_large:
  "predict_salary (Some 18014398509481985) (Some 18014398509481985) =
   Inr (Some 18014398509481984)"
  by (simp add: predict_salary_def returning_def py_int_def true_div_def to_float_def
      binary64_large int_of_float_def trunc_def)

text \<open>A bound of 0 is not \<^verbatim>\<open>None\<close>, yet the predictor treats it as absent.\<close>

lemma predict_salary_zero_lower:
  "predict_salary (Some 0) (Some 1000) = Inr (Some 800) \<and>
   predict_spec (Some 0) (Some 1000) = Some 500"
  by (simp add: predict_salary_moderate trunc_div_def)

section \<open>Salary predictor: the claims\<close>

text \<open>
  C1, as amended. For optional integer bounds of magnitude below \<open>2 ^ 50\<close>, a bound
  counting as present when it is neither \<^verbatim>\<open>None\<close> nor 0, \<open>predict_salary\<close> returns the
  midpoint of the two bounds truncated toward zero when both are present, the lower
  bound times 12/10 truncated toward zero when only the lower one is, the upper bound
  times 8/10 truncated toward zero when only the upper one is, and \<^verbatim>\<open>None\<close> when neither is.
  In particular predict(1000, 2000) = 1500, predict(1000, None) = 1200,
  predict(None, 1000) = 800 and predict(None, None) = None.
\<close>

theorem predict_salary_rule:
  assumes "moderate salary_from" "moderate salary_to"
  shows "predict_salary salary_from salary_to =
           Inr (predict_spec (zero_as_absent salary_from) (zero_as_absent salary_to)) \<and>
         predict_salary (Some 1000) (Some 2000) = Inr (Some 1500) \<and>
         predict_salary (Some 1000) None = Inr (Some 1200) \<and>
         predict_salary None (Some 1000) = Inr (Some 800) \<and>
         predict_salary None None = Inr None"
proof -
  have "predict_salary salary_from salary_to =
        Inr (predict_spec (zero_as_absent salary_from) (zero_as_absent salary_to))"
    using assms by (rule predict_salary_moderate)
  then show ?thesis by (simp add: predict_salary_moderate trunc_div_def)
qed

theorem predict_salary_rule_witness:
  "moderate (Some 3000) \<and> moderate (Some 0) \<and>
   predict_salary (Some 3000) (Some 0) = Inr (Some 3600)"
proof -
  have m: "moderate (Some 3000)" "moderate (Some 0)" by simp_all
  from predict_salary_rule[OF m] show ?thesis by (simp add: trunc_div_def)
qed

text \<open>
  C1 as stated fails for large bounds: with both bounds equal to \<open>2 ^ 54 + 1\<close> the
  midpoint by truncating integer division is \<open>2 ^ 54 + 1\<close>, and \<open>predict_salary\<close>
  returns \<open>2 ^ 54\<close>, the double nearest to it.
\<close>

theorem predict_salary_rule_counterexample:
  "predict_salary (Some 18014398509481985) (Some 18014398509481985) =
     Inr (Some 18014398509481984) \<and>
   predict_spec (Some 18014398509481985) (Some 18014398509481985) =
     Some 18014398509481985"
  by (simp add: predict_salary_large trunc_div_def)

text \<open>
  C2. For every optional upper bound, a lower bound of 0 gives the result of an absent
  lower bound; in particular predict(0, 1000) = predict(None, 1000) = 800.
\<close>

theorem zero_lower_bound_is_absent:
  "predict_salary (Some 0) salary_to = predict_salary None salary_to \<and>
   predict_salary (Some 0) (Some 1000) = Inr (Some 800) \<and>
   predict_salary None (Some 1000) = Inr (Some 800)"
proof -
  have "predict_salary (Some 0) salary_to = predict_salary None salary_to"
    by (simp add: predict_salary_def)
  then show ?thesis by (simp add: predict_salary_moderate trunc_div_def)
qed

text \<open>
  C8. The adapter of hh.ru returns \<^verbatim>\<open>None\<close> at once when the salary of the vacancy
  is not in the currency \<^verbatim>\<open>'RUR'\<close> (or the vacancy has no salary), and otherwise the
  result of \<open>predict_salary\<close> on the two bounds of the salary; the adapter of superjob.ru
  does the same with the currency \<^verbatim>\<open>'rub'\<close> and the bounds of the vacancy.
\<close>

theorem adapters_filter_currency:
  "(salary vacancy = None \<longrightarrow> predict_rub_salary_hh vacancy = Inr None) \<and>
   (\<forall>s. salary vacancy = Some s \<and> hh_currency s \<noteq> ''RUR'' \<longrightarrow>
        predict_rub_salary_hh vacancy = Inr None) \<and>
   (\<forall>s. salary vacancy = Some s \<and> hh_currency s = ''RUR'' \<longrightarrow>
        predict_rub_salary_hh vacancy = predict_salary (hh_from s) (hh_to s)) \<and>
   (currency vacancy' \<noteq> ''rub'' \<longrightarrow> predict_rub_salary_sj vacancy' = Inr None) \<and>
   (currency vacancy' = ''rub'' \<longrightarrow>
        predict_rub_salary_sj vacancy' =
        predict_salary (payment_from vacancy') (payment_to vacancy'))"
  by (simp add: predict_rub_salary_hh_def predict_rub_salary_sj_def)

theorem adapters_filter_currency_witness:
  "predict_rub_salary_hh
     \<lparr>salary = Some \<lparr>hh_currency = ''USD'', hh_from = Some 1000, hh_to = Some 2000\<rparr>\<rparr> =
     Inr None \<and>
   predict_rub_salary_hh
     \<lparr>salary = Some \<lparr>hh_currency = ''RUR'', hh_from = Some 1000, hh_to = Some 2000\<rparr>\<rparr> =
     Inr (Some 1500) \<and>
   predict_rub_salary_hh \<lparr>salary = None\<rparr> = Inr None \<and>
   predict_rub_salary_sj
     \<lparr>currency = ''usd'', payment_from = Some 1000, payment_to = Some 2000\<rparr> = Inr None \<and>
   predict_rub_salary_sj
     \<lparr>currency = ''rub'', payment_from = Some 1000, payment_to = Some 2000\<rparr> =
     Inr (Some 1500)"
  using
    adapters_filter_currency[of
      "\<lparr>salary = Some \<lparr>hh_currency = ''USD'', hh_from = Some 1000, hh_to = Some 2000\<rparr>\<rparr>"
      "\<lparr>currency = ''usd'', payment_from = Some 1000, payment_to = Some 2000\<rparr>"]
    adapters_filter_currency[of
      "\<lparr>salary = Some \<lparr>hh_currency = ''RUR'', hh_from = Some 1000, hh_to = Some 2000\<rparr>\<rparr>"
      "\<lparr>currency = ''rub'', payment_from = Some 1000, payment_to = Some 2000\<rparr>"]
    adapters_filter_currency[of "\<lparr>salary = None\<rparr>"
      "\<lparr>currency = ''rub'', payment_from = Some 1000, payment_to = Some 2000\<rparr>"]
  by (simp add: predict_salary_moderate trunc_div_def)

section \<open>Paginated fetchers: the runs\<close>

lemma yields_append: "yields (es @ es') = yields es @ yields es'"
  by (induction es rule: yields.induct) simp_all

lemma requests_append: "requests (es @ es') = requests es @ requests es'"
  by (induction es rule: requests.induct) simp_all

lemma yields_map_Yield [simp]: "yields (map Yield pairs) = pairs"
  by (induction pairs) simp_all

lemma requests_map_Yield [simp]: "requests (map Yield pairs) = []"
  by (induction pairs) simp_all

lemma fetch_hh_loop_run:
  assumes "page \<le> 200"
  shows "\<exists>r n. fetch_hh_loop get page ps = Some r \<and> page + n \<le> 200 \<and>
           trace r = concat (map (hh_events get) [page..<page + n]) \<and>
           requested r = [page..<page + n] \<and>
           yielded r = concat (map (hh_emitted get) [page..<page + n]) \<and>
           fetch_trace get r"
  using assms
proof (induction "200 - page" arbitrary: page ps)
  case 0
  then have "page = 200" by simp
  then have "fetch_hh_loop get page ps = Some \<lparr>trace = [], raised = None\<rparr>"
    by (subst fetch_hh_loop.simps) simp
  then show ?case using 0
    by (intro exI[of _ "\<lparr>trace = [], raised = None\<rparr>"] exI[of _ 0])
      (simp add: fetch_trace_def requested_def yielded_def)
next
  case (Suc k)
  then have lt: "page < 200" by simp
  show ?case
  proof (cases "int page > ps")
    case True
    then have "fetch_hh_loop get page ps = Some \<lparr>trace = [], raised = None\<rparr>"
      by (subst fetch_hh_loop.simps) simp
    then show ?thesis using lt
      by (intro exI[of _ "\<lparr>trace = [], raised = None\<rparr>"] exI[of _ 0])
        (simp add: fetch_trace_def requested_def yielded_def)
  next
    case False
    show ?thesis
    proof (cases "get page")
      case (Failed status)
      then have "fetch_hh_loop get page ps =
          Some \<lparr>trace = [Request page], raised = Some (HTTPError status)\<rparr>"
        using False lt by (subst fetch_hh_loop.simps) simp
      then show ?thesis using lt Failed
        by (intro exI[of _ "\<lparr>trace = [Request page], raised = Some (HTTPError status)\<rparr>"] exI[of _ 1])
          (simp add: fetch_trace_def hh_emitted_def hh_events_def requested_def yielded_def)
    next
      case (Page c)
      have "k = 200 - Suc page" "Suc page \<le> 200" using Suc.hyps(2) lt by simp_all
      from Suc.hyps(1)[OF this, of "pages c"] obtain r' n' where
        r': "fetch_hh_loop get (Suc page) (pages c) = Some r'" "Suc page + n' \<le> 200"
          "requested r' = [Suc page..<Suc page + n']"
          "yielded r' = concat (map (hh_emitted get) [Suc page..<Suc page + n'])"
          "fetch_trace get r'"
          "trace r' = concat (map (hh_events get) [Suc page..<Suc page + n'])"
        by blast
      define r where "r = \<lparr>trace = Request page # map Yield (hh_page_pairs c) @ trace r',
        raised = raised r'\<rparr>"
      have run: "fetch_hh_loop get page ps = Some r"
        using False lt Page r'(1)
        by (subst fetch_hh_loop.simps) (simp add: r_def hh_page_pairs_def)
      have rq: "requested r = page # requested r'" and yl: "yielded r = hh_page_pairs c @ yielded r'"
        by (simp_all add: r_def requested_def yielded_def requests_append yields_append)
      have upt: "[page..<page + Suc n'] = page # [Suc page..<Suc page + n']"
        by (simp add: upt_conv_Cons)
      have req: "requested r = [page..<page + Suc n']"
        by (simp only: upt) (simp add: rq r'(3))
      have yld: "yielded r = concat (map (hh_emitted get) [page..<page + Suc n'])"
        by (simp only: upt) (simp add: yl r'(4) hh_emitted_def Page)
      have trc: "trace r = concat (map (hh_events get) [page..<page + Suc n'])"
        by (simp only: upt) (simp add: r_def r'(6) hh_events_def hh_emitted_def Page)
      have "raised r = raised r'" by (simp add: r_def)
      then have tr: "fetch_trace get r"
        using r'(5) Page
        by (auto simp add: fetch_trace_def rq split: option.splits if_splits)
      show ?thesis
        using run r'(2) req yld tr trc by (intro exI[of _ r] exI[of _ "Suc n'"]) simp
    qed
  qed
qed

lemma fetch_sj_loop_run:
  assumes "page \<le> 50"
  shows "\<exists>r n. fetch_sj_loop get page ms = Some r \<and> page + n \<le> 50 \<and>
           trace r = concat (map (sj_events get) [page..<page + n]) \<and>
           requested r = [page..<page + n] \<and>
           yielded r = concat (map (sj_emitted get) [page..<page + n]) \<and>
           fetch_trace get r"
  using assms
proof (induction "50 - page" arbitrary: page ms)
  case 0
  then have "page = 50" by simp
  then have "fetch_sj_loop get page ms = Some \<lparr>trace = [], raised = None\<rparr>"
    by (subst fetch_sj_loop.simps) simp
  then show ?case using 0
    by (intro exI[of _ "\<lparr>trace = [], raised = None\<rparr>"] exI[of _ 0])
      (simp add: fetch_trace_def requested_def yielded_def)
next
  case (Suc k)
  then have lt: "page < 50" by simp
  show ?case
  proof (cases ms)
    case False
    then have "fetch_sj_loop get page ms = Some \<lparr>trace = [], raised = None\<rparr>"
      by (subst fetch_sj_loop.simps) simp
    then show ?thesis using lt
      by (intro exI[of _ "\<lparr>trace = [], raised = None\<rparr>"] exI[of _ 0])
        (simp add: fetch_trace_def requested_def yielded_def)
  next
    case True
    show ?thesis
    proof (cases "get page")
      case (Failed status)
      then have "fetch_sj_loop get page ms =
          Some \<lparr>trace = [Request page], raised = Some (HTTPError status)\<rparr>"
        using True lt by (subst fetch_sj_loop.simps) simp
      then show ?thesis using lt Failed
        by (intro exI[of _ "\<lparr>trace = [Request page], raised = Some (HTTPError status)\<rparr>"] exI[of _ 1])
          (simp add: fetch_trace_def sj_emitted_def sj_events_def requested_def yielded_def)
    next
      case (Page c)
      have "k = 50 - Suc page" "Suc page \<le> 50" using Suc.hyps(2) lt by simp_all
      from Suc.hyps(1)[OF this, of "sj_more c"] obtain r' n' where
        r': "fetch_sj_loop get (Suc page) (sj_more c) = Some r'" "Suc page + n' \<le> 50"
          "requested r' = [Suc page..<Suc page + n']"
          "yielded r' = concat (map (sj_emitted get) [Suc page..<Suc page + n'])"
          "fetch_trace get r'"
          "trace r' = concat (map (sj_events get) [Suc page..<Suc page + n'])"
        by blast
      define r where "r = \<lparr>trace = Request page # map Yield (sj_page_pairs c) @ trace r',
        raised = raised r'\<rparr>"
      have run: "fetch_sj_loop get page ms = Some r"
        using True lt Page r'(1)
        by (subst fetch_sj_loop.simps) (simp add: r_def sj_page_pairs_def)
      have rq: "requested r = page # requested r'" and yl: "yielded r = sj_page_pairs c @ yielded r'"
        by (simp_all add: r_def requested_def yielded_def requests_append yields_append)
      have upt: "[page..<page + Suc n'] = page # [Suc page..<Suc page + n']"
        by (simp add: upt_conv_Cons)
      have req: "requested r = [page..<page + Suc n']"
        by (simp only: upt) (simp add: rq r'(3))
      have yld: "yielded r = concat (map (sj_emitted get) [page..<page + Suc n'])"
        by (simp only: upt) (simp add: yl r'(4) sj_emitted_def Page)
      have trc: "trace r = concat (map (sj_events get) [page..<page + Suc n'])"
        by (simp only: upt) (simp add: r_def r'(6) sj_events_def sj_emitted_def Page)
      have "raised r = raised r'" by (simp add: r_def)
      then have tr: "fetch_trace get r"
        using r'(5) Page
        by (auto simp add: fetch_trace_def rq split: option.splits if_splits)
      show ?thesis
        using run r'(2) req yld tr trc by (intro exI[of _ r] exI[of _ "Suc n'"]) simp
    qed
  qed
qed

lemma fetch_hh_loop_runaway:
  assumes never: "\<forall>p. \<exists>c. get p = Page c \<and> int p < pages c"
    and "page \<le> 200" "int page \<le> ps"
  shows "\<exists>r. fetch_hh_loop get page ps = Some r \<and> requested r = [page..<200] \<and>
           raised r = None"
  using assms(2,3)
proof (induction "200 - page" arbitrary: page ps)
  case 0
  then have "page = 200" by simp
  then have "fetch_hh_loop get page ps = Some \<lparr>trace = [], raised = None\<rparr>"
    by (subst fetch_hh_loop.simps) simp
  then show ?case using \<open>page = 200\<close> by (simp add: requested_def)
next
  case (Suc k)
  then have lt: "page < 200" by simp
  from never obtain c where c: "get page = Page c" "int page < pages c" by blast
  have "k = 200 - Suc page" "Suc page \<le> 200" "int (Suc page) \<le> pages c"
    using Suc.hyps(2) lt c(2) by simp_all
  from Suc.hyps(1)[OF this] obtain r' where
    r': "fetch_hh_loop get (Suc page) (pages c) = Some r'" "requested r' = [Suc page..<200]"
      "raised r' = None"
    by blast
  have "fetch_hh_loop get page ps =
      Some \<lparr>trace = Request page # map Yield (hh_page_pairs c) @ trace r',
        raised = raised r'\<rparr>"
    using Suc.prems(2) lt c(1) r'(1)
    by (subst fetch_hh_loop.simps) (simp add: hh_page_pairs_def)
  then show ?case using r'(2,3) lt
    by (auto simp add: upt_conv_Cons requested_def requests_append)
qed

lemma fetch_sj_loop_runaway:
  assumes never: "\<forall>p. \<exists>c. get p = Page c \<and> sj_more c"
    and "page \<le> 50"
  shows "\<exists>r. fetch_sj_loop get page True = Some r \<and> requested r = [page..<50] \<and>
           raised r = None"
  using assms(2)
proof (induction "50 - page" arbitrary: page)
  case 0
  then have "page = 50" by simp
  then have "fetch_sj_loop get page True = Some \<lparr>trace = [], raised = None\<rparr>"
    by (subst fetch_sj_loop.simps) simp
  then show ?case using \<open>page = 50\<close> by (simp add: requested_def)
next
  case (Suc k)
  then have lt: "page < 50" by simp
  from never obtain c where c: "get page = Page c" "sj_more c" by blast
  have "k = 50 - Suc page" "Suc page \<le> 50"
    using Suc.hyps(2) lt by simp_all
  from Suc.hyps(1)[OF this] obtain r' where
    r': "fetch_sj_loop get (Suc page) True = Some r'" "requested r' = [Suc page..<50]"
      "raised r' = None"
    by blast
  have "fetch_sj_loop get page True =
      Some \<lparr>trace = Request page # map Yield (sj_page_pairs c) @ trace r',
        raised = raised r'\<rparr>"
    using lt c r'(1)
    by (subst fetch_sj_loop.simps) (simp add: sj_page_pairs_def)
  then show ?case using r'(2,3) lt
    by (auto simp add: upt_conv_Cons requested_def requests_append)
qed

text \<open>What a failed request means for a run that satisfies the invariants above.\<close>

lemma failed_request_ends_run:
  assumes req: "requested r = [0..<n]" and tr: "fetch_trace get r"
    and p: "p \<in> set (requested r)" and f: "get p = Failed status"
  shows "raised r = Some (HTTPError status) \<and> requested r = [0..<Suc p]"
proof (cases "raised r")
  case None
  then have "\<exists>c. get p = Page c" using tr p by (simp add: fetch_trace_def)
  then show ?thesis using f by simp
next
  case (Some e)
  from p req have pn: "p < n" by simp
  then have n: "n = Suc (n - 1)" by simp
  have bl: "butlast (requested r) = [0..<n - 1]" and la: "last (requested r) = n - 1"
    by (subst n, simp add: req)+
  from tr Some have pages: "\<forall>q \<in> set (butlast (requested r)). \<exists>c. get q = Page c"
    and last: "\<exists>s. get (last (requested r)) = Failed s \<and> e = HTTPError s"
    by (simp_all add: fetch_trace_def)
  have "p \<notin> set (butlast (requested r))" using pages f by auto
  then have "p = n - 1" using pn by (simp add: bl)
  then show ?thesis using last f Some n by (simp add: la req)
qed

lemma fetch_hh_three_pages:
  assumes "get 0 = Page p0" "get 1 = Page p1" "get 2 = Page p2" "get 3 = Page p3"
    and "items p3 = []"
    and "1 \<le> pages p0" "2 \<le> pages p1" "3 \<le> pages p2" "pages p3 < 4"
  shows "fetch_hh_vacancies get =
         Some \<lparr>trace = Request 0 # map Yield (hh_page_pairs p0) @
                       Request 1 # map Yield (hh_page_pairs p1) @
                       Request 2 # map Yield (hh_page_pairs p2) @ [Request 3],
           raised = None\<rparr>"
proof -
  have s4: "fetch_hh_loop get 4 (pages p3) = Some \<lparr>trace = [], raised = None\<rparr>"
    using assms by (subst fetch_hh_loop.simps) simp
  have s3: "fetch_hh_loop get 3 (pages p2) =
      Some \<lparr>trace = [Request 3], raised = None\<rparr>"
    using assms s4 by (subst fetch_hh_loop.simps) simp
  have s2: "fetch_hh_loop get 2 (pages p1) =
      Some \<lparr>trace = Request 2 # map Yield (hh_page_pairs p2) @ [Request 3],
        raised = None\<rparr>"
    using assms s3 by (subst fetch_hh_loop.simps) (simp add: hh_page_pairs_def)
  have s1: "fetch_hh_loop get 1 (pages p0) =
      Some \<lparr>trace = Request 1 # map Yield (hh_page_pairs p1) @
                    Request 2 # map Yield (hh_page_pairs p2) @ [Request 3],
        raised = None\<rparr>"
    using assms s2
    by (subst fetch_hh_loop.simps) (simp add: hh_page_pairs_def numeral_2_eq_2[symmetric])
  show ?thesis
    unfolding fetch_hh_vacancies_def
    using assms s1 by (subst fetch_hh_loop.simps) (simp add: hh_page_pairs_def)
qed

lemma fetch_sj_three_pages:
  assumes "get 0 = Page q0" "get 1 = Page q1" "get 2 = Page q2" "get 3 = Page q3"
    and "objects q3 = []"
    and "sj_more q0" "sj_more q1" "sj_more q2" "\<not> sj_more q3"
  shows "fetch_sj_vacancies get =
         Some \<lparr>trace = Request 0 # map Yield (sj_page_pairs q0) @
                       Request 1 # map Yield (sj_page_pairs q1) @
                       Request 2 # map Yield (sj_page_pairs q2) @ [Request 3],
           raised = None\<rparr>"
proof -
  have s4: "fetch_sj_loop get 4 (sj_more q3) = Some \<lparr>trace = [], raised = None\<rparr>"
    using assms by (subst fetch_sj_loop.simps) simp
  have s3: "fetch_sj_loop get 3 (sj_more q2) =
      Some \<lparr>trace = [Request 3], raised = None\<rparr>"
    using assms s4 by (subst fetch_sj_loop.simps) simp
  have s2: "fetch_sj_loop get 2 (sj_more q1) =
      Some \<lparr>trace = Request 2 # map Yield (sj_page_pairs q2) @ [Request 3],
        raised = None\<rparr>"
    using assms s3 by (subst fetch_sj_loop.simps) (simp add: sj_page_pairs_def)
  have s1: "fetch_sj_loop get 1 (sj_more q0) =
      Some \<lparr>trace = Request 1 # map Yield (sj_page_pairs q1) @
                    Request 2 # map Yield (sj_page_pairs q2) @ [Request 3],
        raised = None\<rparr>"
    using assms s2
    by (subst fetch_sj_loop.simps) (simp add: sj_page_pairs_def numeral_2_eq_2[symmetric])
  show ?thesis
    unfolding fetch_sj_vacancies_def
    using assms s1 by (subst fetch_sj_loop.simps) (simp add: sj_page_pairs_def)
qed

lemma length_page_pairs:
  "length (hh_page_pairs c) = length (items c)"
  "length (sj_page_pairs c') = length (objects c')"
  by (simp_all add: hh_page_pairs_def sj_page_pairs_def)

lemma fetch_hh_vacancies_run:
  "\<exists>r n. fetch_hh_vacancies get = Some r \<and> n \<le> 200 \<and>
     trace r = concat (map (hh_events get) [0..<n]) \<and> requested r = [0..<n] \<and>
     yielded r = concat (map (hh_emitted get) [0..<n]) \<and> fetch_trace get r"
  using fetch_hh_loop_run[of 0 get 0] by (simp add: fetch_hh_vacancies_def)

lemma fetch_sj_vacancies_run:
  "\<exists>r n. fetch_sj_vacancies get = Some r \<and> n \<le> 50 \<and>
     trace r = concat (map (sj_events get) [0..<n]) \<and> requested r = [0..<n] \<and>
     yielded r = concat (map (sj_emitted get) [0..<n]) \<and> fetch_trace get r"
  using fetch_sj_loop_run[of 0 get True] by (simp add: fetch_sj_vacancies_def)

text \<open>
  C6. When the transport returns three pages of ten listings each and then an empty
  fourth page that ends the pagination, each fetcher requests the four pages in order
  and yields exactly 30 pairs, every listing paired with the total-found count of its
  own page, the pairs of a page after the request of that page and before the request
  of the next one. In general, whatever the transport, the fetcher returns, and what it
  does is, for each page it requests in turn, to request the page and then to yield
  every listing of the page paired with the total-found count of that page.
\<close>

theorem pages_emitted_with_own_total:
  assumes "get 0 = Page p0" "get 1 = Page p1" "get 2 = Page p2" "get 3 = Page p3"
    and "length (items p0) = 10" "length (items p1) = 10" "length (items p2) = 10"
    and "items p3 = []"
    and "1 \<le> pages p0" "2 \<le> pages p1" "3 \<le> pages p2" "pages p3 < 4"
    and "get' 0 = Page q0" "get' 1 = Page q1" "get' 2 = Page q2" "get' 3 = Page q3"
    and "length (objects q0) = 10" "length (objects q1) = 10" "length (objects q2) = 10"
    and "objects q3 = []"
    and "sj_more q0" "sj_more q1" "sj_more q2" "\<not> sj_more q3"
  shows "(\<exists>r. fetch_hh_vacancies get = Some r \<and> raised r = None \<and>
              trace r = Request 0 # map Yield (hh_page_pairs p0) @
                        Request 1 # map Yield (hh_page_pairs p1) @
                        Request 2 # map Yield (hh_page_pairs p2) @ [Request 3] \<and>
              yielded r = hh_page_pairs p0 @ hh_page_pairs p1 @ hh_page_pairs p2 \<and>
              length (yielded r) = 30) \<and>
         (\<exists>r. fetch_sj_vacancies get' = Some r \<and> raised r = None \<and>
              trace r = Request 0 # map Yield (sj_page_pairs q0) @
                        Request 1 # map Yield (sj_page_pairs q1) @
                        Request 2 # map Yield (sj_page_pairs q2) @ [Request 3] \<and>
              yielded r = sj_page_pairs q0 @ sj_page_pairs q1 @ sj_page_pairs q2 \<and>
              length (yielded r) = 30) \<and>
         (\<exists>r. fetch_hh_vacancies g = Some r \<and>
              trace r = concat (map (hh_events g) (requested r)) \<and>
              yielded r = concat (map (hh_emitted g) (requested r))) \<and>
         (\<exists>r. fetch_sj_vacancies g' = Some r \<and>
              trace r = concat (map (sj_events g') (requested r)) \<and>
              yielded r = concat (map (sj_emitted g') (requested r)))"
proof -
  have "fetch_hh_vacancies get =
         Some \<lparr>trace = Request 0 # map Yield (hh_page_pairs p0) @
                       Request 1 # map Yield (hh_page_pairs p1) @
                       Request 2 # map Yield (hh_page_pairs p2) @ [Request 3],
           raised = None\<rparr>"
    using assms by (intro fetch_hh_three_pages) auto
  then have 1: "(\<exists>r. fetch_hh_vacancies get = Some r \<and> raised r = None \<and>
              trace r = Request 0 # map Yield (hh_page_pairs p0) @
                        Request 1 # map Yield (hh_page_pairs p1) @
                        Request 2 # map Yield (hh_page_pairs p2) @ [Request 3] \<and>
              yielded r = hh_page_pairs p0 @ hh_page_pairs p1 @ hh_page_pairs p2 \<and>
              length (yielded r) = 30)"
    using assms(5-7) by (simp add: yielded_def yields_append length_page_pairs)
  have "fetch_sj_vacancies get' =
         Some \<lparr>trace = Request 0 # map Yield (sj_page_pairs q0) @
                       Request 1 # map Yield (sj_page_pairs q1) @
                       Request 2 # map Yield (sj_page_pairs q2) @ [Request 3],
           raised = None\<rparr>"
    using assms by (intro fetch_sj_three_pages) auto
  then have 2: "(\<exists>r. fetch_sj_vacancies get' = Some r \<and> raised r = None \<and>
              trace r = Request 0 # map Yield (sj_page_pairs q0) @
                        Request 1 # map Yield (sj_page_pairs q1) @
                        Request 2 # map Yield (sj_page_pairs q2) @ [Request 3] \<and>
              yielded r = sj_page_pairs q0 @ sj_page_pairs q1 @ sj_page_pairs q2 \<and>
              length (yielded r) = 30)"
    using assms(17-19) by (simp add: yielded_def yields_append length_page_pairs)
  have 3: "(\<exists>r. fetch_hh_vacancies g = Some r \<and>
              trace r = concat (map (hh_events g) (requested r)) \<and>
              yielded r = concat (map (hh_emitted g) (requested r)))"
    using fetch_hh_vacancies_run[of g] by auto
  have 4: "(\<exists>r. fetch_sj_vacancies g' = Some r \<and>
              trace r = concat (map (sj_events g') (requested r)) \<and>
              yielded r = concat (map (sj_emitted g') (requested r)))"
    using fetch_sj_vacancies_run[of g'] by auto
  from 1 2 3 4 show ?thesis by blast
qed

theorem pages_emitted_with_own_total_witness:
  "(\<exists>r. fetch_hh_vacancies hh_three_pages = Some r \<and>
      yielded r = replicate 10 (Some \<lparr>salary = None\<rparr>, 30) @
                  replicate 10 (Some \<lparr>salary = None\<rparr>, 31) @
                  replicate 10 (Some \<lparr>salary = None\<rparr>, 32) \<and>
      requested r = [0, 1, 2, 3] \<and> raised r = None) \<and>
   (\<exists>r. fetch_sj_vacancies sj_three_pages = Some r \<and>
      yielded r = replicate 10 (None, 30) @ replicate 10 (None, 31) @ replicate 10 (None, 32) \<and>
      requested r = [0, 1, 2, 3] \<and> raised r = None)"
proof -
  define p where "p = (\<lambda>n :: nat. \<lparr>items = (if n < 3 then replicate 10 (Some \<lparr>salary = None\<rparr>) else []),
           found = 30 + int n, pages = 3\<rparr>)"
  define q where "q = (\<lambda>n :: nat. \<lparr>objects = (if n < 3 then replicate 10 (None :: sj_vacancy option) else []),
           total = 30 + int n, sj_more = (n < 3)\<rparr>)"
  have "(\<exists>r. fetch_hh_vacancies hh_three_pages = Some r \<and> raised r = None \<and>
              trace r = Request 0 # map Yield (hh_page_pairs (p 0)) @
                        Request 1 # map Yield (hh_page_pairs (p 1)) @
                        Request 2 # map Yield (hh_page_pairs (p 2)) @ [Request 3] \<and>
              yielded r = hh_page_pairs (p 0) @ hh_page_pairs (p 1) @ hh_page_pairs (p 2) \<and>
              length (yielded r) = 30) \<and>
         (\<exists>r. fetch_sj_vacancies sj_three_pages = Some r \<and> raised r = None \<and>
              trace r = Request 0 # map Yield (sj_page_pairs (q 0)) @
                        Request 1 # map Yield (sj_page_pairs (q 1)) @
                        Request 2 # map Yield (sj_page_pairs (q 2)) @ [Request 3] \<and>
              yielded r = sj_page_pairs (q 0) @ sj_page_pairs (q 1) @ sj_page_pairs (q 2) \<and>
              length (yielded r) = 30) \<and>
         (\<exists>r. fetch_hh_vacancies hh_three_pages = Some r \<and>
              trace r = concat (map (hh_events hh_three_pages) (requested r)) \<and>
              yielded r = concat (map (hh_emitted hh_three_pages) (requested r))) \<and>
         (\<exists>r. fetch_sj_vacancies sj_three_pages = Some r \<and>
              trace r = concat (map (sj_events sj_three_pages) (requested r)) \<and>
              yielded r = concat (map (sj_emitted sj_three_pages) (requested r)))"
    by (rule pages_emitted_with_own_total[where get = hh_three_pages and get' = sj_three_pages
          and ?p0.0 = "p 0" and ?p1.0 = "p 1" and ?p2.0 = "p 2" and ?p3.0 = "p 3"
          and ?q0.0 = "q 0" and ?q1.0 = "q 1" and ?q2.0 = "q 2" and ?q3.0 = "q 3"])
      (simp_all add: hh_three_pages_def sj_three_pages_def p_def q_def)
  then obtain r r' where
    r: "fetch_hh_vacancies hh_three_pages = Some r" "raised r = None"
      "trace r = Request 0 # map Yield (hh_page_pairs (p 0)) @
                        Request 1 # map Yield (hh_page_pairs (p 1)) @
                        Request 2 # map Yield (hh_page_pairs (p 2)) @ [Request 3]"
      "yielded r = hh_page_pairs (p 0) @ hh_page_pairs (p 1) @ hh_page_pairs (p 2)"
    and r': "fetch_sj_vacancies sj_three_pages = Some r'" "raised r' = None"
      "trace r' = Request 0 # map Yield (sj_page_pairs (q 0)) @
                        Request 1 # map Yield (sj_page_pairs (q 1)) @
                        Request 2 # map Yield (sj_page_pairs (q 2)) @ [Request 3]"
      "yielded r' = sj_page_pairs (q 0) @ sj_page_pairs (q 1) @ sj_page_pairs (q 2)"
    by blast
  have "requested r = [0, 1, 2, 3]" "requested r' = [0, 1, 2, 3]"
    by (simp_all add: requested_def r(3) r'(3) requests_append)
  then show ?thesis
    using r r' by (simp add: p_def q_def hh_page_pairs_def sj_page_pairs_def)
qed

text \<open>
  C7. Whatever the transport, each fetcher returns, after at most 200 requests for
  hh.ru and at most 50 for superjob.ru. When no response ever signals completion, it
  requests exactly the pages 0 to 199 (0 to 49) and ends without an exception.
\<close>

theorem fetch_halts_at_ceiling:
  "(\<exists>r. fetch_hh_vacancies get = Some r \<and> length (requested r) \<le> 200) \<and>
   ((\<forall>p. \<exists>c. get p = Page c \<and> int p < pages c) \<longrightarrow>
      (\<exists>r. fetch_hh_vacancies get = Some r \<and> requested r = [0..<200] \<and> raised r = None)) \<and>
   (\<exists>r. fetch_sj_vacancies get' = Some r \<and> length (requested r) \<le> 50) \<and>
   ((\<forall>p. \<exists>c. get' p = Page c \<and> sj_more c) \<longrightarrow>
      (\<exists>r. fetch_sj_vacancies get' = Some r \<and> requested r = [0..<50] \<and> raised r = None))"
proof -
  have 1: "\<exists>r. fetch_hh_vacancies get = Some r \<and> length (requested r) \<le> 200"
    using fetch_hh_vacancies_run[of get] by auto
  have 2: "\<exists>r. fetch_hh_vacancies get = Some r \<and> requested r = [0..<200] \<and> raised r = None"
    if "\<forall>p. \<exists>c. get p = Page c \<and> int p < pages c"
    using fetch_hh_loop_runaway[OF that, of 0 0] by (simp add: fetch_hh_vacancies_def)
  have 3: "\<exists>r. fetch_sj_vacancies get' = Some r \<and> length (requested r) \<le> 50"
    using fetch_sj_vacancies_run[of get'] by auto
  have 4: "\<exists>r. fetch_sj_vacancies get' = Some r \<and> requested r = [0..<50] \<and> raised r = None"
    if "\<forall>p. \<exists>c. get' p = Page c \<and> sj_more c"
    using fetch_sj_loop_runaway[OF that, of 0] by (simp add: fetch_sj_vacancies_def)
  from 1 2 3 4 show ?thesis by blast
qed

theorem fetch_halts_at_ceiling_witness:
  "(\<forall>p. \<exists>c. hh_endless p = Page c \<and> int p < pages c) \<and>
   (\<exists>r. fetch_hh_vacancies hh_endless = Some r \<and> requested r = [0..<200] \<and> raised r = None) \<and>
   (\<forall>p. \<exists>c. sj_endless p = Page c \<and> sj_more c) \<and>
   (\<exists>r. fetch_sj_vacancies sj_endless = Some r \<and> requested r = [0..<50] \<and> raised r = None)"
proof -
  have h: "\<forall>p. \<exists>c. hh_endless p = Page c \<and> int p < pages c"
    by (simp add: hh_endless_def)
  have s: "\<forall>p. \<exists>c. sj_endless p = Page c \<and> sj_more c"
    by (simp add: sj_endless_def)
  from fetch_halts_at_ceiling[of hh_endless sj_endless] h s show ?thesis by blast
qed

text \<open>
  C9. Whatever the transport, each fetcher returns, and when a page it requested came
  back with a non-success status, the run ended with the HTTP error of that status and
  the request of that page is its last event: every page was requested once, none
  after the failed one, and the pairs yielded are those of the pages before it, none
  from the failed page.
\<close>

theorem failed_page_aborts_fetch:
  "(\<exists>r. fetch_hh_vacancies get = Some r \<and>
      (\<forall>p status. p \<in> set (requested r) \<and> get p = Failed status \<longrightarrow>
         raised r = Some (HTTPError status) \<and>
         trace r = concat (map (hh_events get) [0..<p]) @ [Request p] \<and>
         requested r = [0..<Suc p] \<and>
         yielded r = concat (map (hh_emitted get) [0..<p]))) \<and>
   (\<exists>r. fetch_sj_vacancies get' = Some r \<and>
      (\<forall>p status. p \<in> set (requested r) \<and> get' p = Failed status \<longrightarrow>
         raised r = Some (HTTPError status) \<and>
         trace r = concat (map (sj_events get') [0..<p]) @ [Request p] \<and>
         requested r = [0..<Suc p] \<and>
         yielded r = concat (map (sj_emitted get') [0..<p])))"
proof
  from fetch_hh_vacancies_run[of get] obtain r n where
    r: "fetch_hh_vacancies get = Some r" "requested r = [0..<n]"
      "yielded r = concat (map (hh_emitted get) [0..<n])" "fetch_trace get r"
      "trace r = concat (map (hh_events get) [0..<n])"
    by blast
  have "raised r = Some (HTTPError status) \<and>
         trace r = concat (map (hh_events get) [0..<p]) @ [Request p] \<and>
         requested r = [0..<Suc p] \<and>
         yielded r = concat (map (hh_emitted get) [0..<p])"
    if "p \<in> set (requested r)" "get p = Failed status" for p status
  proof -
    from failed_request_ends_run[OF r(2) r(4) that]
    have a: "raised r = Some (HTTPError status)" "requested r = [0..<Suc p]" by simp_all
    from a(2) r(2) have "n = Suc p" by (metis length_upt diff_zero)
    then show ?thesis using a r(3) r(5) that(2) by (simp add: hh_emitted_def hh_events_def)
  qed
  with r(1) show "\<exists>r. fetch_hh_vacancies get = Some r \<and>
      (\<forall>p status. p \<in> set (requested r) \<and> get p = Failed status \<longrightarrow>
         raised r = Some (HTTPError status) \<and>
         trace r = concat (map (hh_events get) [0..<p]) @ [Request p] \<and>
         requested r = [0..<Suc p] \<and>
         yielded r = concat (map (hh_emitted get) [0..<p]))" by blast
next
  from fetch_sj_vacancies_run[of get'] obtain r n where
    r: "fetch_sj_vacancies get' = Some r" "requested r = [0..<n]"
      "yielded r = concat (map (sj_emitted get') [0..<n])" "fetch_trace get' r"
      "trace r = concat (map (sj_events get') [0..<n])"
    by blast
  have "raised r = Some (HTTPError status) \<and>
         trace r = concat (map (sj_events get') [0..<p]) @ [Request p] \<and>
         requested r = [0..<Suc p] \<and>
         yielded r = concat (map (sj_emitted get') [0..<p])"
    if "p \<in> set (requested r)" "get' p = Failed status" for p status
  proof -
    from failed_request_ends_run[OF r(2) r(4) that]
    have a: "raised r = Some (HTTPError status)" "requested r = [0..<Suc p]" by simp_all
    from a(2) r(2) have "n = Suc p" by (metis length_upt diff_zero)
    then show ?thesis using a r(3) r(5) that(2) by (simp add: sj_emitted_def sj_events_def)
  qed
  with r(1) show "\<exists>r. fetch_sj_vacancies get' = Some r \<and>
      (\<forall>p status. p \<in> set (requested r) \<and> get' p = Failed status \<longrightarrow>
         raised r = Some (HTTPError status) \<and>
         trace r = concat (map (sj_events get') [0..<p]) @ [Request p] \<and>
         requested r = [0..<Suc p] \<and>
         yielded r = concat (map (sj_emitted get') [0..<p]))" by blast
qed

lemma fetch_hh_failing:
  "fetch_hh_vacancies hh_failing =
   Some \<lparr>trace = [Request 0, Yield (Some \<lparr>salary = None\<rparr>, 5),
                   Request 1, Yield (Some \<lparr>salary = None\<rparr>, 5), Request 2],
     raised = Some (HTTPError 500)\<rparr>"
  by code_simp

lemma fetch_sj_failing:
  "fetch_sj_vacancies sj_failing =
   Some \<lparr>trace = [Request 0, Yield (None, 9), Request 1], raised = Some (HTTPError 403)\<rparr>"
  by code_simp

theorem failed_page_aborts_fetch_witness:
  "(\<exists>r. fetch_hh_vacancies hh_failing = Some r \<and> 2 \<in> set (requested r) \<and>
      hh_failing 2 = Failed 500 \<and>
      raised r = Some (HTTPError 500) \<and>
         trace r = concat (map (hh_events hh_failing) [0..<2]) @ [Request 2] \<and>
         requested r = [0..<Suc 2] \<and>
         yielded r = concat (map (hh_emitted hh_failing) [0..<2])) \<and>
   (\<exists>r. fetch_sj_vacancies sj_failing = Some r \<and> 1 \<in> set (requested r) \<and>
      sj_failing 1 = Failed 403 \<and>
      raised r = Some (HTTPError 403) \<and>
         trace r = concat (map (sj_events sj_failing) [0..<1]) @ [Request 1] \<and>
         requested r = [0..<Suc 1] \<and>
         yielded r = concat (map (sj_emitted sj_failing) [0..<1]))"
proof -
  from failed_page_aborts_fetch[of hh_failing sj_failing] obtain r r' where
    r: "fetch_hh_vacancies hh_failing = Some r"
      "\<forall>p status. p \<in> set (requested r) \<and> hh_failing p = Failed status \<longrightarrow>
         raised r = Some (HTTPError status) \<and>
         trace r = concat (map (hh_events hh_failing) [0..<p]) @ [Request p] \<and>
         requested r = [0..<Suc p] \<and>
         yielded r = concat (map (hh_emitted hh_failing) [0..<p])"
    and r': "fetch_sj_vacancies sj_failing = Some r'"
      "\<forall>p status. p \<in> set (requested r') \<and> sj_failing p = Failed status \<longrightarrow>
         raised r' = Some (HTTPError status) \<and>
         trace r' = concat (map (sj_events sj_failing) [0..<p]) @ [Request p] \<and>
         requested r' = [0..<Suc p] \<and>
         yielded r' = concat (map (sj_emitted sj_failing) [0..<p])"
    by blast
  from r(1) have "requested r = [0, 1, 2]"
    by (auto simp add: fetch_hh_failing requested_def)
  then have a: "2 \<in> set (requested r)" "hh_failing 2 = Failed 500"
    by (simp_all add: hh_failing_def)
  from r'(1) have "requested r' = [0, 1]"
    by (auto simp add: fetch_sj_failing requested_def)
  then have b: "1 \<in> set (requested r')" "sj_failing 1 = Failed 403"
    by (simp_all add: sj_failing_def)
  from r(2) a have "raised r = Some (HTTPError 500) \<and>
         trace r = concat (map (hh_events hh_failing) [0..<2]) @ [Request 2] \<and>
         requested r = [0..<Suc 2] \<and>
         yielded r = concat (map (hh_emitted hh_failing) [0..<2])" by blast
  moreover from r'(2) b have "raised r' = Some (HTTPError 403) \<and>
         trace r' = concat (map (sj_events sj_failing) [0..<1]) @ [Request 1] \<and>
         requested r' = [0..<Suc 1] \<and>
         yielded r' = concat (map (sj_emitted sj_failing) [0..<1])" by blast
  ultimately show ?thesis using r(1) r'(1) a b by blast
qed

section \<open>Statistics aggregators: the rows\<close>

lemma single_page_simps [simp]:
  "yielded (single_page pairs) = pairs"
  "requested (single_page pairs) = [0]"
  "raised (single_page pairs) = None"
  by (simp_all add: single_page_def yielded_def requested_def)

lemma tally_step_cases:
  "tally_step predict (vacancy, n) st =
     (case prediction_of predict (vacancy, n) of
        None \<Rightarrow>
          (case vacancy of
             None \<Rightarrow> Inr (st\<lparr>vacancy_count := Some n\<rparr>)
           | Some v \<Rightarrow>
               (case predict v of Inl e \<Rightarrow> Inl e | Inr p \<Rightarrow> Inr (st\<lparr>vacancy_count := Some n\<rparr>)))
      | Some p \<Rightarrow>
          if p = 0 then Inr (st\<lparr>vacancy_count := Some n\<rparr>)
          else Inr (st\<lparr>vacancy_count := Some n,
                      vacancies_processed := vacancies_processed st + 1,
                      salaries_sum := salaries_sum st + p\<rparr>))"
  by (auto simp add: tally_step_def prediction_of_def Let_def split: option.splits sum.splits)

lemma tally_step_counts:
  assumes "tally_step predict pair st = Inr st'"
  shows "vacancies_processed st' =
           vacancies_processed st + int (length (counted predict [pair])) \<and>
         salaries_sum st' = salaries_sum st + sum_list (counted predict [pair]) \<and>
         vacancy_count st' = Some (snd pair)"
proof (cases pair)
  case (Pair vacancy n)
  show ?thesis
    using assms unfolding Pair tally_step_cases
    by (auto simp add: counted_def resolvable_def
        split: option.splits sum.splits if_splits)
qed

lemma counted_Cons: "counted predict (pair # pairs) = counted predict [pair] @ counted predict pairs"
  by (simp add: counted_def resolvable_def split: option.splits)

lemma tally_counts:
  assumes "tally predict pairs st = Inr st'"
  shows "vacancies_processed st' = vacancies_processed st + int (length (counted predict pairs)) \<and>
         salaries_sum st' = salaries_sum st + sum_list (counted predict pairs) \<and>
         vacancy_count st' = (if pairs = [] then vacancy_count st else Some (snd (last pairs)))"
  using assms
proof (induction pairs arbitrary: st)
  case Nil
  then show ?case by (simp add: counted_def resolvable_def)
next
  case (Cons pair pairs)
  from Cons.prems obtain st1 where
    st1: "tally_step predict pair st = Inr st1" "tally predict pairs st1 = Inr st'"
    by (auto split: sum.splits)
  note a = tally_step_counts[OF st1(1)] and b = Cons.IH[OF st1(2)]
  have c: "counted predict (pair # pairs) = counted predict [pair] @ counted predict pairs"
    by (rule counted_Cons)
  show ?case
    using a b by (simp add: c)
qed

lemma average_exact:
  assumes "\<bar>salaries_sum st\<bar> < 2 ^ 53" "0 \<le> vacancies_processed st"
  shows "average st =
         Inr (if vacancies_processed st = 0 then 0
              else trunc_div (salaries_sum st) (vacancies_processed st))"
  using assms by (simp add: average_def py_int_true_div)

text \<open>What a successful run of the loop over the languages has done for each language.\<close>

lemma statistics_loop_rows:
  assumes "statistics_loop predict fetch languages bound rows = Some (Inr out)"
  shows "length out = length rows + length languages \<and> take (length rows) out = rows \<and>
         (\<forall>i < length languages. \<exists>r b st.
            fetch (languages ! i) = Some r \<and> raised r = None \<and>
            tally predict (yielded r)
              \<lparr>vacancy_count = b, vacancies_processed = 0, salaries_sum = 0\<rparr> = Inr st \<and>
            make_row (languages ! i) st = Inr (out ! (length rows + i)))"
  using assms
proof (induction languages arbitrary: bound rows)
  case Nil
  then show ?case by simp
next
  case (Cons lang languages)
  from Cons.prems obtain r st row where
    s: "fetch lang = Some r" "raised r = None"
      "tally predict (yielded r)
         \<lparr>vacancy_count = bound, vacancies_processed = 0, salaries_sum = 0\<rparr> = Inr st"
      "make_row lang st = Inr row"
      "statistics_loop predict fetch languages (vacancy_count st) (rows @ [row]) = Some (Inr out)"
    by (auto split: option.splits sum.splits)
  from Cons.IH[OF s(5)] have
    len: "length out = length (rows @ [row]) + length languages" and
    pre: "take (length (rows @ [row])) out = rows @ [row]" and
    rest: "\<forall>i < length languages. \<exists>r b st.
            fetch (languages ! i) = Some r \<and> raised r = None \<and>
            tally predict (yielded r)
              \<lparr>vacancy_count = b, vacancies_processed = 0, salaries_sum = 0\<rparr> = Inr st \<and>
            make_row (languages ! i) st = Inr (out ! (length (rows @ [row]) + i))"
    by simp_all
  have "out ! length rows = take (length (rows @ [row])) out ! length rows" by simp
  then have keep: "out ! length rows = row" by (simp only: pre) simp
  have "take (length rows) out = take (length rows) (take (length (rows @ [row])) out)"
    by (simp add: min_def)
  then have pre': "take (length rows) out = rows" by (simp only: pre) simp
  show ?case
  proof (intro conjI allI impI)
    show "length out = length rows + length (lang # languages)" using len by simp
  next
    show "take (length rows) out = rows" by (rule pre')
  next
    fix i assume i: "i < length (lang # languages)"
    show "\<exists>r b st. fetch ((lang # languages) ! i) = Some r \<and> raised r = None \<and>
            tally predict (yielded r)
              \<lparr>vacancy_count = b, vacancies_processed = 0, salaries_sum = 0\<rparr> = Inr st \<and>
            make_row ((lang # languages) ! i) st = Inr (out ! (length rows + i))"
    proof (cases i)
      case 0
      then show ?thesis using s keep by auto
    next
      case (Suc j)
      then have "j < length languages" using i by simp
      with rest Suc show ?thesis by simp
    qed
  qed
qed

text \<open>The statistics functions return: every fetch ends, and the other loops are over lists.\<close>

lemma statistics_loop_returns:
  assumes "\<And>lang. \<exists>r. fetch lang = Some r"
  shows "\<exists>res. statistics_loop predict fetch languages bound rows = Some res"
proof (induction languages arbitrary: bound rows)
  case Nil
  show ?case by simp
next
  case (Cons lang languages)
  from assms obtain r where r: "fetch lang = Some r" by blast
  show ?case
    using Cons.IH by (simp add: r split: sum.splits option.splits)
qed

lemma get_statistics_return:
  "\<exists>res. get_hh_statistics transport languages = Some res"
  "\<exists>res. get_sj_statistics transport' languages = Some res"
proof -
  have "\<exists>r. fetch_hh_vacancies (transport lang) = Some r" for lang
    using fetch_hh_vacancies_run[of "transport lang"] by blast
  then show "\<exists>res. get_hh_statistics transport languages = Some res"
    unfolding get_hh_statistics_def by (rule statistics_loop_returns)
  have "\<exists>r. fetch_sj_vacancies (transport' lang) = Some r" for lang
    using fetch_sj_vacancies_run[of "transport' lang"] by blast
  then show "\<exists>res. get_sj_statistics transport' languages = Some res"
    unfolding get_sj_statistics_def by (rule statistics_loop_returns)
qed

lemma fetch_hh_negative:
  "fetch_hh_vacancies (hh_negative lang) =
   Some (single_page hh_negative_pairs)"
  unfolding fetch_hh_vacancies_def hh_negative_pairs_def
  by (subst fetch_hh_loop.simps, simp add: hh_negative_def, subst fetch_hh_loop.simps,
      simp add: single_page_def)

lemma run_hh_negative:
  "get_hh_statistics hh_negative [''Go''] =
   Some (Inr [\<lparr>language = ''Go'', totalFound = 2, totalProcessed = 2, averageSalary = - 1\<rparr>])"
  by (simp add: get_hh_statistics_def fetch_hh_negative hh_negative_pairs_def hh_listing_def
      tally_step_def predict_rub_salary_hh_def predict_salary_moderate trunc_div_def
      make_row_def average_def py_int_true_div)


lemma loop_row_fields:
  assumes run: "statistics_loop predict fetch languages bound [] = Some (Inr rows)"
    and i: "i < length languages" and r: "fetch (languages ! i) = Some r"
  shows "language (rows ! i) = languages ! i"
    and "totalProcessed (rows ! i) = int (length (counted predict (yielded r)))"
    and "yielded r \<noteq> [] \<Longrightarrow> totalFound (rows ! i) = snd (last (yielded r))"
    and "\<bar>sum_list (counted predict (yielded r))\<bar> < 2 ^ 53 \<Longrightarrow>
         averageSalary (rows ! i) =
           (if counted predict (yielded r) = [] then 0
            else trunc_div (sum_list (counted predict (yielded r)))
                   (int (length (counted predict (yielded r)))))"
proof -
  from statistics_loop_rows[OF run] i r obtain b st where
    st: "tally predict (yielded r)
           \<lparr>vacancy_count = b, vacancies_processed = 0, salaries_sum = 0\<rparr> = Inr st"
      "make_row (languages ! i) st = Inr (rows ! i)"
    by fastforce
  from tally_counts[OF st(1)] have
    vp: "vacancies_processed st = int (length (counted predict (yielded r)))" and
    ss: "salaries_sum st = sum_list (counted predict (yielded r))" and
    vc: "vacancy_count st = (if yielded r = [] then b else Some (snd (last (yielded r))))"
    by simp_all
  from st(2) obtain n a where
    row: "vacancy_count st = Some n" "average st = Inr a"
      "rows ! i = \<lparr>language = languages ! i, totalFound = n,
         totalProcessed = vacancies_processed st, averageSalary = a\<rparr>"
    by (auto simp add: make_row_def split: option.splits sum.splits)
  show "language (rows ! i) = languages ! i" by (simp add: row(3))
  show "totalProcessed (rows ! i) = int (length (counted predict (yielded r)))"
    by (simp add: row(3) vp)
  show "totalFound (rows ! i) = snd (last (yielded r))" if "yielded r \<noteq> []"
    using that vc row(1) by (simp add: row(3))
  show "averageSalary (rows ! i) =
           (if counted predict (yielded r) = [] then 0
            else trunc_div (sum_list (counted predict (yielded r)))
                   (int (length (counted predict (yielded r)))))"
    if "\<bar>sum_list (counted predict (yielded r))\<bar> < 2 ^ 53"
  proof -
    have "average st =
         Inr (if vacancies_processed st = 0 then 0
              else trunc_div (salaries_sum st) (vacancies_processed st))"
      using that by (intro average_exact) (simp_all add: ss vp)
    then show ?thesis using row(2) by (simp add: row(3) vp ss)
  qed
qed

lemmas run_simps =
  get_hh_statistics_def get_sj_statistics_def hh_listing_def sj_listing_def
  hh_page_pairs_def sj_page_pairs_def tally_step_def
  predict_rub_salary_hh_def predict_rub_salary_sj_def predict_salary_moderate trunc_div_def
  make_row_def average_def py_int_true_div

lemma fetch_hh_go_ruby:
  "fetch_hh_vacancies (hh_go_ruby ''Go'') =
     Some (single_page
       [(hh_listing ''RUR'' (Some 1000) (Some 1000), 3),
        (hh_listing ''USD'' (Some 10) (Some 20), 3),
        (hh_listing ''RUR'' (Some 2000) (Some 2000), 3)])"
  "fetch_hh_vacancies (hh_go_ruby ''Ruby'') =
     Some (single_page
       [(Some \<lparr>salary = None\<rparr>, 1)])"
  unfolding fetch_hh_vacancies_def
  by (subst fetch_hh_loop.simps, simp add: hh_go_ruby_def, subst fetch_hh_loop.simps,
      simp add: single_page_def)+

lemma run_hh_go_ruby:
  "get_hh_statistics hh_go_ruby [''Go'', ''Ruby''] = Some (Inr go_ruby_rows)"
  by (simp add: fetch_hh_go_ruby run_simps go_ruby_rows_def)

lemma fetch_sj_go_ruby:
  "fetch_sj_vacancies (sj_go_ruby ''Go'') =
     Some (single_page
       [(sj_listing ''rub'' (Some 1000) (Some 1000), 3),
        (sj_listing ''usd'' (Some 10) (Some 20), 3),
        (sj_listing ''rub'' (Some 2000) (Some 2000), 3)])"
  "fetch_sj_vacancies (sj_go_ruby ''Ruby'') =
     Some (single_page
       [(sj_listing ''rub'' (Some 0) (Some 0), 1)])"
  unfolding fetch_sj_vacancies_def
  by (subst fetch_sj_loop.simps, simp add: sj_go_ruby_def, subst fetch_sj_loop.simps,
      simp add: single_page_def)+

lemma run_sj_go_ruby:
  "get_sj_statistics sj_go_ruby [''Go'', ''Ruby''] = Some (Inr go_ruby_rows)"
  by (simp add: fetch_sj_go_ruby run_simps go_ruby_rows_def)

lemma counted_hh_go:
  "counted predict_rub_salary_hh
     [(hh_listing ''RUR'' (Some 1000) (Some 1000), 3),
      (hh_listing ''USD'' (Some 10) (Some 20), 3),
      (hh_listing ''RUR'' (Some 2000) (Some 2000), 3)] = [1000, 2000]"
  by (simp add: counted_def resolvable_def prediction_of_def run_simps)

lemma counted_sj_go:
  "counted predict_rub_salary_sj
     [(sj_listing ''rub'' (Some 1000) (Some 1000), 3),
      (sj_listing ''usd'' (Some 10) (Some 20), 3),
      (sj_listing ''rub'' (Some 2000) (Some 2000), 3)] = [1000, 2000]"
  by (simp add: counted_def resolvable_def prediction_of_def run_simps)

lemma resolvable_hh_negative:
  "resolvable predict_rub_salary_hh hh_negative_pairs = [- 1, - 2]"
  by (simp add: hh_negative_pairs_def resolvable_def prediction_of_def
      run_simps)

lemma ilog2_unique:
  assumes "0 < x" "2 powi k \<le> x" "x < 2 powi (k + 1)"
  shows "ilog2 x = k"
proof -
  note b = ilog2_bounds[OF assms(1)]
  have lt: "m < n" if "(2::rat) powi m < 2 powi n" for m n :: int
  proof (rule ccontr)
    assume "\<not> m < n"
    then have "(2::rat) powi n \<le> 2 powi m" by (intro power_int_increasing) auto
    with that show False by simp
  qed
  have "(2::rat) powi k < 2 powi (ilog2 x + 1)" using assms(2) b(2) by linarith
  then have 1: "k < ilog2 x + 1" by (rule lt)
  have "(2::rat) powi (ilog2 x) < 2 powi (k + 1)" using assms(3) b(1) by linarith
  then have 2: "ilog2 x < k + 1" by (rule lt)
  from 1 2 show ?thesis by simp
qed

lemma binary64_two_53: "binary64 9007199254740992 = 9007199254740992"
proof -
  have i: "ilog2 9007199254740992 = 53" by (rule ilog2_unique) simp_all
  have f: "\<lfloor>(9007199254740992::rat) / 2\<rfloor> = 4503599627370496" by (rule floor_unique) simp_all
  show ?thesis by (simp add: binary64_def i round_half_even_def Let_def f)
qed

lemma binary64_two_53_plus_4: "binary64 9007199254740996 = 9007199254740996"
proof -
  have i: "ilog2 9007199254740996 = 53" by (rule ilog2_unique) simp_all
  have f: "\<lfloor>(9007199254740996::rat) / 2\<rfloor> = 4503599627370498" by (rule floor_unique) simp_all
  show ?thesis by (simp add: binary64_def i round_half_even_def Let_def f)
qed

lemma binary64_large_mean: "binary64 (27021597764222980 / 3) = 9007199254740994"
proof -
  have i: "ilog2 (27021597764222980 / 3) = 53" by (rule ilog2_unique) simp_all
  have f: "\<lfloor>(13510798882111490::rat) / 3\<rfloor> = 4503599627370496" by (rule floor_unique) simp_all
  show ?thesis by (simp add: binary64_def i round_half_even_def Let_def f)
qed

lemma predict_salary_two_53:
  "predict_salary (Some 9007199254740992) (Some 9007199254740992) = Inr (Some 9007199254740992)"
  "predict_salary (Some 9007199254740996) (Some 9007199254740996) = Inr (Some 9007199254740996)"
  by (simp_all add: predict_salary_def returning_def py_int_def true_div_def to_float_def
      binary64_two_53 binary64_two_53_plus_4 int_of_float_def trunc_def)

lemma fetch_hh_large:
  "fetch_hh_vacancies (hh_large lang) = Some (single_page hh_large_pairs)"
  unfolding fetch_hh_vacancies_def hh_large_pairs_def
  by (subst fetch_hh_loop.simps, simp add: hh_large_def, subst fetch_hh_loop.simps,
      simp add: single_page_def)

text \<open>Beyond \<open>2 ^ 53\<close> the average is the rounded quotient, here one above the floor.\<close>

lemma run_hh_large:
  "get_hh_statistics hh_large [''Go''] =
   Some (Inr [\<lparr>language = ''Go'', totalFound = 3, totalProcessed = 3,
               averageSalary = 9007199254740994\<rparr>]) \<and>
   resolvable predict_rub_salary_hh hh_large_pairs =
     [9007199254740992, 9007199254740992, 9007199254740996] \<and>
   sum_list [9007199254740992, 9007199254740992, 9007199254740996] div 3 =
     (9007199254740993 :: int)"
  by (simp add: get_hh_statistics_def fetch_hh_large hh_large_pairs_def hh_listing_def
      tally_step_def predict_rub_salary_hh_def predict_salary_two_53 make_row_def average_def
      py_int_def true_div_def to_float_def binary64_large_mean int_of_float_def trunc_def
      resolvable_def prediction_of_def)

text \<open>A prediction of 0 is resolvable, and the listing is not processed.\<close>

lemma zero_prediction_resolvable:
  "resolvable predict_rub_salary_hh [(hh_listing ''RUR'' None (Some 1), 1)] = [0] \<and>
   \<not> claimed_row predict_rub_salary_hh [(hh_listing ''RUR'' None (Some 1), 1)]
       \<lparr>language = ''Go'', totalFound = 1, totalProcessed = 0, averageSalary = 0\<rparr>"
  by (simp add: resolvable_def prediction_of_def claimed_row_def run_simps)

lemma counted_hh_large:
  "counted predict_rub_salary_hh hh_large_pairs =
     [9007199254740992, 9007199254740992, 9007199254740996]"
  by (simp add: counted_def resolvable_def prediction_of_def hh_large_pairs_def hh_listing_def
      predict_rub_salary_hh_def predict_salary_two_53)

text \<open>
  C3, as amended. When a statistics function returns its rows, the row of each language
  has as \<open>totalProcessed\<close> the number \<open>k\<close> of listings of the fetch sequence of that
  language whose prediction is neither \<^verbatim>\<open>None\<close> nor 0, whatever their sum \<open>S\<close>; and,
  when \<open>S\<close> is below \<open>2 ^ 53\<close> in magnitude, it has as \<open>averageSalary\<close> the quotient of
  \<open>S\<close> by \<open>k\<close> truncated toward zero (the floor when \<open>S\<close> is not negative) when
  \<open>k > 0\<close>, and 0 otherwise.
\<close>

theorem summary_row_of_counted_predictions:
  assumes "get_hh_statistics transport languages = Some (Inr rows)"
    and "i < length languages"
    and "fetch_hh_vacancies (transport (languages ! i)) = Some r"
    and "get_sj_statistics transport' languages' = Some (Inr rows')"
    and "i' < length languages'"
    and "fetch_sj_vacancies (transport' (languages' ! i')) = Some r'"
  shows "totalProcessed (rows ! i) = int (length (counted predict_rub_salary_hh (yielded r))) \<and>
         (\<bar>sum_list (counted predict_rub_salary_hh (yielded r))\<bar> < 2 ^ 53 \<longrightarrow>
          averageSalary (rows ! i) =
            (if counted predict_rub_salary_hh (yielded r) = [] then 0
             else trunc_div (sum_list (counted predict_rub_salary_hh (yielded r)))
                    (int (length (counted predict_rub_salary_hh (yielded r)))))) \<and>
         totalProcessed (rows' ! i') = int (length (counted predict_rub_salary_sj (yielded r'))) \<and>
         (\<bar>sum_list (counted predict_rub_salary_sj (yielded r'))\<bar> < 2 ^ 53 \<longrightarrow>
          averageSalary (rows' ! i') =
            (if counted predict_rub_salary_sj (yielded r') = [] then 0
             else trunc_div (sum_list (counted predict_rub_salary_sj (yielded r')))
                    (int (length (counted predict_rub_salary_sj (yielded r'))))))"
proof -
  note hh = loop_row_fields[OF assms(1)[unfolded get_hh_statistics_def] assms(2) assms(3)]
  note sj = loop_row_fields[OF assms(4)[unfolded get_sj_statistics_def] assms(5) assms(6)]
  from hh(2) hh(4) sj(2) sj(4) show ?thesis by blast
qed

theorem summary_row_of_counted_predictions_witness:
  "get_hh_statistics hh_go_ruby [''Go'', ''Ruby''] = Some (Inr go_ruby_rows) \<and>
   get_sj_statistics sj_go_ruby [''Go'', ''Ruby''] = Some (Inr go_ruby_rows) \<and>
   \<bar>sum_list [1000, 2000 :: int]\<bar> < 2 ^ 53 \<and>
   totalProcessed (go_ruby_rows ! 0) = int (length [1000, 2000 :: int]) \<and>
   averageSalary (go_ruby_rows ! 0) =
     trunc_div (sum_list [1000, 2000]) (int (length [1000, 2000 :: int])) \<and>
   \<not> \<bar>sum_list [9007199254740992, 9007199254740992, 9007199254740996 :: int]\<bar> < 2 ^ 53 \<and>
   totalProcessed
     ([\<lparr>language = ''Go'', totalFound = 3, totalProcessed = 3,
         averageSalary = 9007199254740994\<rparr>] ! 0) =
     int (length [9007199254740992, 9007199254740992, 9007199254740996 :: int])"
proof -
  have h: "(0::nat) < length [''Go'', ''Ruby'']" by simp
  have g: "fetch_hh_vacancies (hh_go_ruby ([''Go'', ''Ruby''] ! 0)) =
     Some (single_page
       [(hh_listing ''RUR'' (Some 1000) (Some 1000), 3),
        (hh_listing ''USD'' (Some 10) (Some 20), 3),
        (hh_listing ''RUR'' (Some 2000) (Some 2000), 3)])"
    by (simp add: fetch_hh_go_ruby)
  have g': "fetch_sj_vacancies (sj_go_ruby ([''Go'', ''Ruby''] ! 0)) =
     Some (single_page
       [(sj_listing ''rub'' (Some 1000) (Some 1000), 3),
        (sj_listing ''usd'' (Some 10) (Some 20), 3),
        (sj_listing ''rub'' (Some 2000) (Some 2000), 3)])"
    by (simp add: fetch_sj_go_ruby)
  have b: "\<bar>sum_list [1000, 2000 :: int]\<bar> < 2 ^ 53" by simp
  have small: "totalProcessed (go_ruby_rows ! 0) = int (length [1000, 2000 :: int]) \<and>
      averageSalary (go_ruby_rows ! 0) =
        trunc_div (sum_list [1000, 2000]) (int (length [1000, 2000 :: int]))"
    using summary_row_of_counted_predictions[OF run_hh_go_ruby h g run_sj_go_ruby h g'] b
    by (simp add: counted_hh_go counted_sj_go)
  have h1: "(0::nat) < length [''Go'']" by simp
  have l: "get_hh_statistics hh_large [''Go''] =
      Some (Inr [\<lparr>language = ''Go'', totalFound = 3, totalProcessed = 3,
                  averageSalary = 9007199254740994\<rparr>])"
    using run_hh_large by blast
  have gl: "fetch_hh_vacancies (hh_large ([''Go''] ! 0)) = Some (single_page hh_large_pairs)"
    by (simp add: fetch_hh_large)
  have large: "totalProcessed
     ([\<lparr>language = ''Go'', totalFound = 3, totalProcessed = 3,
         averageSalary = 9007199254740994\<rparr>] ! 0) =
     int (length [9007199254740992, 9007199254740992, 9007199254740996 :: int])"
    using summary_row_of_counted_predictions[OF l h1 gl run_sj_go_ruby h g']
    by (simp add: counted_hh_large)
  have nb: "\<not> \<bar>sum_list [9007199254740992, 9007199254740992, 9007199254740996 :: int]\<bar>
      < 2 ^ 53" by simp
  from small large b nb run_hh_go_ruby run_sj_go_ruby show ?thesis by blast
qed

text \<open>
  C3 as stated fails on a page with the salaries \<open>(-1, None)\<close> and \<open>(-2, -2)\<close>: both
  predictions are resolvable, \<open>-1\<close> and \<open>-2\<close>, the floor of their mean is \<open>-2\<close>, and
  the row has the average \<open>-1\<close>, since \<^verbatim>\<open>int\<close> truncates toward zero.
\<close>

theorem summary_row_floor_counterexample:
  "fetch_hh_vacancies (hh_negative ''Go'') =
     Some (single_page hh_negative_pairs) \<and>
   get_hh_statistics hh_negative [''Go''] =
     Some (Inr [\<lparr>language = ''Go'', totalFound = 2, totalProcessed = 2, averageSalary = - 1\<rparr>]) \<and>
   resolvable predict_rub_salary_hh hh_negative_pairs = [- 1, - 2] \<and>
   \<not> claimed_row predict_rub_salary_hh hh_negative_pairs
       \<lparr>language = ''Go'', totalFound = 2, totalProcessed = 2, averageSalary = - 1\<rparr>"
  by (simp add: fetch_hh_negative run_hh_negative resolvable_hh_negative claimed_row_def)

lemma fetch_nothing:
  "fetch_hh_vacancies (hh_nothing lang) = Some (single_page [])"
  "fetch_sj_vacancies (sj_nothing lang) = Some (single_page [])"
  unfolding fetch_hh_vacancies_def fetch_sj_vacancies_def
  by (subst fetch_hh_loop.simps, simp add: hh_nothing_def, subst fetch_hh_loop.simps,
      simp add: single_page_def,
      subst fetch_sj_loop.simps, simp add: sj_nothing_def, subst fetch_sj_loop.simps,
      simp add: single_page_def)

lemma fetch_hh_go_only:
  "fetch_hh_vacancies (hh_go_only ''Go'') =
     Some (single_page
       [(hh_listing ''RUR'' (Some 1000) (Some 2000), 7)])"
  "fetch_hh_vacancies (hh_go_only ''Ruby'') =
     Some (single_page [])"
  unfolding fetch_hh_vacancies_def
  by (subst fetch_hh_loop.simps, simp add: hh_go_only_def, subst fetch_hh_loop.simps,
      simp add: single_page_def)+

text \<open>
  C4 does not hold of the code. When the first language yields no pair at all,
  \<^verbatim>\<open>vacancy_count\<close> is unbound where the row is built, and the function raises instead
  of building the row with a default; for a later language the row gets the count that
  an earlier language left behind.
\<close>

theorem no_listing_no_total_found:
  "get_hh_statistics hh_nothing [''Go''] = Some (Inl UnboundLocalError) \<and>
   get_sj_statistics sj_nothing [''Go''] = Some (Inl UnboundLocalError) \<and>
   get_hh_statistics hh_go_only [''Go'', ''Ruby''] =
     Some (Inr [\<lparr>language = ''Go'', totalFound = 7, totalProcessed = 1, averageSalary = 1500\<rparr>,
                \<lparr>language = ''Ruby'', totalFound = 7, totalProcessed = 0, averageSalary = 0\<rparr>])"
  by (simp add: fetch_nothing fetch_hh_go_only run_simps)



lemma fetch_hh_one_rouble:
  "fetch_hh_vacancies (hh_one_rouble lang) =
     Some (single_page
       [(hh_listing ''RUR'' None (Some 1), 1)])"
  unfolding fetch_hh_vacancies_def
  by (subst fetch_hh_loop.simps, simp add: hh_one_rouble_def, subst fetch_hh_loop.simps,
      simp add: single_page_def)

text \<open>
  C10. A listing whose prediction is exactly 0 is skipped as one whose prediction is
  \<^verbatim>\<open>None\<close>: the iteration binds \<^verbatim>\<open>vacancy_count\<close> and leaves the number of processed
  listings and the running sum as they were. Such a prediction exists: an upper bound
  of 1 alone gives \<^verbatim>\<open>int(1 * 0.8)\<close>, which is 0, and a run over one such listing
  processes nothing.
\<close>

theorem zero_prediction_is_skipped:
  "(predict v = Inr (Some 0) \<and> predict w = Inr None \<longrightarrow>
      tally_step predict (Some v, n) st = Inr (st\<lparr>vacancy_count := Some n\<rparr>) \<and>
      tally_step predict (Some v, n) st = tally_step predict (Some w, n) st) \<and>
   predict_salary None (Some 1) = Inr (Some 0) \<and>
   get_hh_statistics hh_one_rouble [''Go''] =
     Some (Inr [\<lparr>language = ''Go'', totalFound = 1, totalProcessed = 0, averageSalary = 0\<rparr>])"
  by (simp add: fetch_hh_one_rouble run_simps)

theorem zero_prediction_is_skipped_witness:
  "predict_rub_salary_hh \<lparr>salary = Some \<lparr>hh_currency = ''RUR'', hh_from = None, hh_to = Some 1\<rparr>\<rparr> =
     Inr (Some 0) \<and>
   predict_rub_salary_hh \<lparr>salary = None\<rparr> = Inr None \<and>
   tally_step predict_rub_salary_hh
     (Some \<lparr>salary = Some \<lparr>hh_currency = ''RUR'', hh_from = None, hh_to = Some 1\<rparr>\<rparr>, 5)
     \<lparr>vacancy_count = None, vacancies_processed = 3, salaries_sum = 4500\<rparr> =
   Inr \<lparr>vacancy_count = Some 5, vacancies_processed = 3, salaries_sum = 4500\<rparr>"
proof -
  have a: "predict_rub_salary_hh
      \<lparr>salary = Some \<lparr>hh_currency = ''RUR'', hh_from = None, hh_to = Some 1\<rparr>\<rparr> = Inr (Some 0)"
    by (simp add: run_simps)
  have b: "predict_rub_salary_hh \<lparr>salary = None\<rparr> = Inr None"
    by (simp add: run_simps)
  from zero_prediction_is_skipped[of predict_rub_salary_hh
      "\<lparr>salary = Some \<lparr>hh_currency = ''RUR'', hh_from = None, hh_to = Some 1\<rparr>\<rparr>"
      "\<lparr>salary = None\<rparr>" 5
      "\<lparr>vacancy_count = None, vacancies_processed = 3, salaries_sum = 4500\<rparr>"] a b
  show ?thesis by simp
qed

end
